theory Spec2Isabelle
  imports Main
begin

section \<open>Python values used by sync\_patchwork.py\<close>

text \<open>
  Strings are byte lists. Every character the program compares against (newline,
  \<open>-\<close>, space, \<open>/\<close> and the letters of \<open>dev/null\<close>) is ASCII, and an ASCII byte
  never occurs inside a multi-byte UTF-8 sequence, so splitting, searching and
  slicing at a found position agree with Python's code-point strings.
\<close>

datatype py_error =
    StopIteration
  | IndexError
  | KeyError
  | TypeError
  | ValueError
  | SystemExit int

definition nl :: char where
  "nl = CHR 0x0A"

text \<open>\<open>s.split('\n')\<close>: always at least one field; \<open>''.split('\n') == ['']\<close>.\<close>

fun split_acc :: "string \<Rightarrow> string \<Rightarrow> string list" where
  "split_acc cur [] = [cur]"
| "split_acc cur (c # cs) =
     (if c = nl then cur # split_acc [] cs else split_acc (cur @ [c]) cs)"

definition py_split_nl :: "string \<Rightarrow> string list" where
  "py_split_nl s = split_acc [] s"

text \<open>\<open>s.find(sub) >= 0\<close>: \<open>sub\<close> occurs somewhere in \<open>s\<close>.\<close>

fun py_contains :: "string \<Rightarrow> string \<Rightarrow> bool" where
  "py_contains sub [] = (sub = [])"
| "py_contains sub (c # cs) = (take (length sub) (c # cs) = sub \<or> py_contains sub cs)"

text \<open>
  \<open>line[line.find('/')+1:]\<close>: the text after the first \<open>/\<close>; when the line has no
  \<open>/\<close>, \<open>find\<close> gives \<open>-1\<close> and the slice \<open>line[0:]\<close> is the whole line.
\<close>

definition after_first_slash :: "string \<Rightarrow> string" where
  "after_first_slash line =
     (case dropWhile (\<lambda>c. c \<noteq> CHR ''/'') line of
        [] \<Rightarrow> line
      | _ # rest \<Rightarrow> rest)"

text \<open>
  \<open>re.search(r'^\-\-\- ', line)\<close>: without \<open>re.MULTILINE\<close> the anchor matches at
  the start of the string only, so the test is that the line starts with three
  dashes and a space.
\<close>

definition is_removed_marker :: "string \<Rightarrow> bool" where
  "is_removed_marker line = (take 4 line = ''--- '')"

text \<open>\<open>line.find('dev/null') >= 0\<close>\<close>

definition has_dev_null :: "string \<Rightarrow> bool" where
  "has_dev_null line = py_contains ''dev/null'' line"

text \<open>\<open>str(n)\<close> of an integer, as the f-strings \<open>f"{series['id']}"\<close> render it.\<close>

definition digit_char :: "nat \<Rightarrow> char" where
  "digit_char d = char_of (48 + d)"

fun nat_digits :: "nat \<Rightarrow> string" where
  "nat_digits n = (if n < 10 then [digit_char n] else nat_digits (n div 10) @ [digit_char (n mod 10)])"

declare nat_digits.simps [simp del]

definition py_str_int :: "int \<Rightarrow> string" where
  "py_str_int i = (if i < 0 then CHR ''-'' # nat_digits (nat (- i)) else nat_digits (nat i))"

text \<open>An optional string inside an f-string: \<open>None\<close> renders as \<open>None\<close>.\<close>

definition py_str_opt :: "string option \<Rightarrow> string" where
  "py_str_opt x = (case x of None \<Rightarrow> ''None'' | Some s \<Rightarrow> s)"

text \<open>
  \<open>os.path.join(a, b)\<close> on POSIX: an absolute \<open>b\<close> replaces \<open>a\<close>; otherwise the
  parts are joined by one \<open>/\<close>, none being added after an empty \<open>a\<close> or one that
  already ends in \<open>/\<close>.
\<close>

definition os_path_join :: "string \<Rightarrow> string \<Rightarrow> string" where
  "os_path_join a b =
     (if take 1 b = ''/'' then b
      else if a = [] \<or> last a = CHR ''/'' then a @ b
      else a @ ''/'' @ b)"

section \<open>Data model\<close>

text \<open>
  A series as the tracker returns it: its patches are summaries (id, name, message
  id); the diff, the commit message and the check status of a patch come from a
  separate \<open>get_patch\<close> call. A series' name may be null.
\<close>

record patch =
  patch_id :: int
  patch_name :: string
  msgid :: string

record full_patch =
  diff :: "string option"
  content :: string
  check :: string

record series =
  series_id :: int
  series_name :: "string option"
  patches :: "patch list"
  submitter_email :: string

record pull_request =
  number :: int
  title :: string

record space_config =
  sd_include :: "string list"
  sd_exclude :: "string list"

text \<open>
  \<open>config['email']\<close>: the key \<open>only-maintainers\<close> is optional (the code tests for
  it with \<open>in\<close>), the other two are read unconditionally.
\<close>

record email_config =
  only_maintainers :: "bool option"
  maintainers :: "string list"
  default_to :: string

text \<open>The \<open>Context\<close> object: the configuration and the source directory.\<close>

record ci_data =
  dry_run :: bool
  disable_pr :: bool
  branch :: string
  temp_root :: string
  space :: string
  space_details :: "string \<rightharpoonup> space_config"
  email :: email_config
  src_dir :: string

section \<open>The collaborators\<close>

text \<open>
  Every call the program makes on a collaborator (tracker, hosting platform, VCS,
  mail transport, file system, logger) is an event. \<open>log_debug\<close> calls are
  diagnostics whose text embeds Python object representations; they influence
  nothing and are left out. \<open>log_info\<close>, \<open>log_error\<close> and \<open>print\<close> are kept.
\<close>

datatype event =
    LogError string
  | LogInfo string
  | Print string
  | PathExists string
  | Makedirs string
  | WriteFile string string
  | GitCheckout string bool
  | GitAm string
  | GitAmAbort
  | GitPush string
  | GetSeriesByState int
  | GetPatch int
  | GetPatchMbox int
  | PostCheck patch string int string
  | SetReceivers "string list"
  | Compose string string "(string \<times> string) list"
  | Send
  | PrExistTitle string
  | CreatePr string string string string
  | GetPrs bool
  | ClosePr int

text \<open>
  The collaborators are parameters. Their joint state is a value of type \<open>'w\<close>;
  \<open>step\<close> says how a call changes it, and the other fields give what a call
  returns in a given state. The queries \<open>get_series_by_state\<close>, \<open>get_patch\<close>,
  \<open>get_patch_mbox\<close> and \<open>os.path.exists\<close> are reads, which leave the state as
  it is; every other call goes through \<open>step\<close>. The VCS calls return a truthy
  value on failure (an exit code), \<open>git_stderr\<close> is the attribute
  \<open>src_repo.stderr\<close>. The last three fields are state-independent functions the
  source imports: Python's \<open>re.search(pattern, text, re.IGNORECASE)\<close> as a truth
  value (patterns are well-formed), \<open>int(text)\<close>, and \<open>pr_get_sid\<close> of \<open>libs\<close>.
\<close>

record 'w env =
  step :: "'w \<Rightarrow> event \<Rightarrow> 'w"
  get_series_by_state :: "'w \<Rightarrow> int \<Rightarrow> series list"
  get_patch :: "'w \<Rightarrow> int \<Rightarrow> full_patch"
  get_patch_mbox :: "'w \<Rightarrow> int \<Rightarrow> string"
  path_exists :: "'w \<Rightarrow> string \<Rightarrow> bool"
  git_checkout :: "'w \<Rightarrow> string \<Rightarrow> bool \<Rightarrow> bool"
  git_am :: "'w \<Rightarrow> string \<Rightarrow> bool"
  git_stderr :: "'w \<Rightarrow> string"
  git_push :: "'w \<Rightarrow> string \<Rightarrow> bool"
  create_pr :: "'w \<Rightarrow> string \<Rightarrow> string \<Rightarrow> string \<Rightarrow> string \<Rightarrow> bool"
  pr_exist_title :: "'w \<Rightarrow> string \<Rightarrow> bool"
  get_prs :: "'w \<Rightarrow> bool \<Rightarrow> pull_request list"
  re_search_ic :: "string \<Rightarrow> string \<Rightarrow> bool"
  py_int :: "string \<Rightarrow> py_error + int"
  pr_get_sid :: "string \<Rightarrow> string option"

text \<open>
  The program state: the collaborators' state and the trace of calls so far.
  \<open>call\<close> is a call that may change the collaborators, \<open>observe\<close> one that only
  reads (or logs).
\<close>

type_synonym 'w state = "'w \<times> event list"

definition call :: "'w env \<Rightarrow> event \<Rightarrow> 'w state \<Rightarrow> 'w state" where
  "call w ev s = (step w (fst s) ev, snd s @ [ev])"

definition observe :: "event \<Rightarrow> 'w state \<Rightarrow> 'w state" where
  "observe ev s = (fst s, snd s @ [ev])"

section \<open>DiffAnalyzer\<close>

subsection \<open>\<open>patch_get_new_file_list\<close>\<close>

text \<open>\<open>next(iter_lines)\<close> on the rest of the iterator.\<close>

fun next_line :: "string list \<Rightarrow> py_error + (string \<times> string list)" where
  "next_line [] = Inl StopIteration"
| "next_line (l # it) = Inr (l, it)"

text \<open>
  The body of the \<open>try\<close> block for one \<open>line\<close>, given the rest of the iterator and
  \<open>file_list\<close>: the error raised, or the iterator and list it leaves.
\<close>

definition new_file_try ::
  "string \<Rightarrow> string list \<Rightarrow> string list \<Rightarrow> py_error + (string list \<times> string list)" where
  "new_file_try line it file_list =
     (if is_removed_marker line then
        (if has_dev_null line then
           (case next_line it of
              Inl e \<Rightarrow> Inl e
            | Inr (line2, it') \<Rightarrow> Inr (it', file_list @ [after_first_slash line2]))
         else Inr (it, file_list))
      else Inr (it, file_list))"

lemma new_file_try_shorter:
  "new_file_try line it file_list = Inr (it', file_list') \<Longrightarrow> length it' \<le> length it"
  by (cases it) (auto simp: new_file_try_def split: if_splits)

text \<open>
  The \<open>for\<close> loop over the iterator. \<open>except StopIteration: pass\<close> catches that
  error only; the iterator is then exhausted and the loop resumes on it.
\<close>

function new_file_loop :: "string list \<Rightarrow> string list \<Rightarrow> py_error + string list" where
  "new_file_loop [] file_list = Inr file_list"
| "new_file_loop (line # it) file_list =
     (case new_file_try line it file_list of
        Inl e \<Rightarrow> (if e = StopIteration then new_file_loop [] file_list else Inl e)
      | Inr (it', file_list') \<Rightarrow> new_file_loop it' file_list')"
  by pat_completeness auto
termination
  by (relation "measure (\<lambda>(it, file_list). length it)")
     (auto dest: new_file_try_shorter)

definition patch_get_new_file_list ::
  "string option \<Rightarrow> 'w state \<Rightarrow> (py_error + string list) \<times> 'w state" where
  "patch_get_new_file_list patch s =
     (case patch of
        None \<Rightarrow> (Inr [], observe (LogError ''WARNING: No file found in patch'') s)
      | Some p \<Rightarrow> (new_file_loop (py_split_nl p) [], s))"

subsection \<open>\<open>patch_get_file_list\<close>\<close>

fun file_loop :: "string list \<Rightarrow> string list \<Rightarrow> string list" where
  "file_loop [] file_list = file_list"
| "file_loop (line # lines) file_list =
     (if is_removed_marker line then
        (if has_dev_null line then file_loop lines file_list
         else file_loop lines (file_list @ [after_first_slash line]))
      else file_loop lines file_list)"

definition patch_get_file_list :: "string option \<Rightarrow> 'w state \<Rightarrow> string list \<times> 'w state" where
  "patch_get_file_list patch s =
     (case patch of
        None \<Rightarrow> ([], observe (LogError ''WARNING: No file found in patch'') s)
      | Some p \<Rightarrow> (file_loop (py_split_nl p) [], s))"

subsection \<open>\<open>series_get_file_list\<close>\<close>

text \<open>
  The loop over \<open>series['patches']\<close>, carrying \<open>file_list\<close> and \<open>new_file_list\<close>.
  Fetching a patch from the tracker is a read.
\<close>

fun series_files_loop ::
  "'w env \<Rightarrow> bool \<Rightarrow> patch list \<Rightarrow> string list \<Rightarrow> string list \<Rightarrow> 'w state
    \<Rightarrow> (py_error + (string list \<times> string list)) \<times> 'w state" where
  "series_files_loop w ignore_new_file [] file_list new_file_list s =
     (Inr (file_list, new_file_list), s)"
| "series_files_loop w ignore_new_file (patch # rest) file_list new_file_list s =
     (let full_patch = get_patch w (fst s) (patch_id patch);
          s1 = observe (GetPatch (patch_id patch)) s;
          r = patch_get_file_list (diff full_patch) s1
      in if ignore_new_file then
           (case patch_get_new_file_list (diff full_patch) (snd r) of
              (Inl e, s3) \<Rightarrow> (Inl e, s3)
            | (Inr nfl, s3) \<Rightarrow>
                series_files_loop w ignore_new_file rest
                  (file_list @ fst r) (new_file_list @ nfl) s3)
         else series_files_loop w ignore_new_file rest (file_list @ fst r) new_file_list (snd r))"

definition series_get_file_list ::
  "'w env \<Rightarrow> series \<Rightarrow> bool \<Rightarrow> 'w state \<Rightarrow> (py_error + string list) \<times> 'w state" where
  "series_get_file_list w series ignore_new_file s =
     (case series_files_loop w ignore_new_file (patches series) [] [] s of
        (Inl e, s1) \<Rightarrow> (Inl e, s1)
      | (Inr (file_list, new_file_list), s1) \<Rightarrow>
          (if \<not> ignore_new_file \<or> length new_file_list = 0 then (Inr file_list, s1)
           else (Inr (filter (\<lambda>filename. filename \<notin> set new_file_list) file_list), s1)))"

section \<open>RepoSpaceFilter\<close>

text \<open>
  \<open>for str in patterns: if re.search(str, series['name'], re.IGNORECASE): return\<close>.
  A null name makes the first \<open>re.search\<close> raise \<open>TypeError\<close>; with no pattern
  the name is never looked at.
\<close>

fun name_matches :: "'w env \<Rightarrow> string list \<Rightarrow> string option \<Rightarrow> py_error + bool" where
  "name_matches w [] name = Inr False"
| "name_matches w (str # rest) name =
     (case name of
        None \<Rightarrow> Inl TypeError
      | Some n \<Rightarrow> (if re_search_ic w str n then Inr True else name_matches w rest name))"

text \<open>The loop \<open>for filename in file_list\<close>: it returns at the first missing path.\<close>

fun files_exist :: "'w env \<Rightarrow> string \<Rightarrow> string list \<Rightarrow> 'w state \<Rightarrow> bool \<times> 'w state" where
  "files_exist w src [] s = (True, s)"
| "files_exist w src (filename # rest) s =
     (let file_path = os_path_join src filename;
          found = path_exists w (fst s) file_path;
          s1 = observe (PathExists file_path) s
      in if \<not> found then (False, observe (LogError (''File not found: '' @ filename)) s1)
         else files_exist w src rest s1)"

definition filter_repo_space ::
  "'w env \<Rightarrow> space_config \<Rightarrow> series \<Rightarrow> string \<Rightarrow> 'w state \<Rightarrow> (py_error + bool) \<times> 'w state" where
  "filter_repo_space w details series src s =
     (case name_matches w (sd_exclude details) (series_name series) of
        Inl e \<Rightarrow> (Inl e, s)
      | Inr excluded \<Rightarrow>
          if excluded then (Inr False, s)
          else
            (case name_matches w (sd_include details) (series_name series) of
               Inl e \<Rightarrow> (Inl e, s)
             | Inr included \<Rightarrow>
                 if included then (Inr True, s)
                 else
                   (case series_get_file_list w series True s of
                      (Inl e, s1) \<Rightarrow> (Inl e, s1)
                    | (Inr file_list, s1) \<Rightarrow>
                        if length file_list = 0
                        then (Inr False,
                              observe (LogError ''ERROR: No files found in the series/patch'') s1)
                        else
                          (case files_exist w src file_list s1 of
                             (found, s2) \<Rightarrow>
                               if found
                               then (Inr True, observe (Print ''Files exist in the source tree.'') s2)
                               else (Inr False, s2)))))"

section \<open>Failure notification\<close>

text \<open>
  \<open>EMAIL_MESSAGE.format(content=content)\<close>: the template around the content
  (called \<open>output\<close> here, \<open>content\<close> being a field of a patch).
\<close>

definition EMAIL_MESSAGE :: "string \<Rightarrow> string" where
  "EMAIL_MESSAGE output =
     ''This is an automated email and please do not reply to this email.\<newline>'' @
     ''\<newline>'' @
     ''Dear Submitter,\<newline>'' @
     ''\<newline>'' @
     ''Thank you for submitting the patches to the linux bluetooth mailing list.\<newline>'' @
     ''While preparing the CI tests, the patches you submitted couldn'' @ [CHR 0x27] @
     ''t be applied to the current HEAD of the repository.\<newline>'' @
     ''\<newline>'' @
     ''----- Output -----\<newline>'' @
     output @ ''\<newline>'' @
     ''\<newline>'' @
     ''Please resolve the issue and submit the patches again.\<newline>'' @
     ''\<newline>'' @
     ''\<newline>'' @
     ''---\<newline>'' @
     ''Regards,\<newline>'' @
     ''Linux Bluetooth\<newline>'' @
     ''\<newline>''"

definition is_maintainers_only :: "email_config \<Rightarrow> bool" where
  "is_maintainers_only email_config = (only_maintainers email_config = Some True)"

definition get_receivers :: "email_config \<Rightarrow> string \<Rightarrow> string list" where
  "get_receivers email_config submitter =
     (if is_maintainers_only email_config then maintainers email_config
      else [default_to email_config, submitter])"

text \<open>The headers dictionary, in insertion order.\<close>

definition send_email ::
  "ci_data \<Rightarrow> 'w env \<Rightarrow> series \<Rightarrow> string \<Rightarrow> 'w state \<Rightarrow> (py_error + unit) \<times> 'w state" where
  "send_email ci w series output s =
     (let email_config = email ci;
          body = EMAIL_MESSAGE output
      in case patches series of
           [] \<Rightarrow> (Inl IndexError, s)
         | patch_1 # _ \<Rightarrow>
             (let headers =
                    [(''In-Reply-To'', msgid patch_1), (''References'', msgid patch_1)] @
                    (if \<not> is_maintainers_only email_config
                     then [(''Reply-To'', default_to email_config)] else []);
                  receivers = get_receivers email_config (submitter_email series);
                  s1 = call w (SetReceivers receivers) s;
                  s2 = call w (Compose (''RE: '' @ py_str_opt (series_name series)) body headers) s1
              in if dry_run ci
                 then (Inr (), observe (LogInfo ''Dry-Run: Skip sending email'') s2)
                 else (Inr (), call w Send (observe (LogInfo ''Sending Email...'') s2))))"

section \<open>SeriesApplier: \<open>series_check_patches\<close>\<close>

definition patch_file :: "string \<Rightarrow> patch \<Rightarrow> string" where
  "patch_file series_dir p = os_path_join series_dir (py_str_int (patch_id p) @ ''.patch'')"

text \<open>Fetching the mailbox form of a patch and writing it to its file.\<close>

definition save_patch :: "'w env \<Rightarrow> string \<Rightarrow> patch \<Rightarrow> 'w state \<Rightarrow> 'w state" where
  "save_patch w series_dir p s =
     (let patch_mbox = get_patch_mbox w (fst s) (patch_id p);
          s1 = observe (GetPatchMbox (patch_id p)) s
      in call w (WriteFile (patch_file series_dir p) patch_mbox) s1)"

text \<open>
  The loop \<open>for patch in series['patches']\<close>. It returns \<open>verdict\<close> and \<open>content\<close>
  (initially \<open>True\<close> and the empty string), leaving at the \<open>break\<close> after the
  first patch that \<open>git am\<close> rejects. \<open>content\<close> is \<open>src_repo.stderr\<close> read right
  after the failed call, before the abort.
\<close>

fun apply_patches ::
  "ci_data \<Rightarrow> 'w env \<Rightarrow> string \<Rightarrow> bool \<Rightarrow> patch list \<Rightarrow> 'w state
    \<Rightarrow> (bool \<times> string) \<times> 'w state" where
  "apply_patches ci w series_dir already_checked [] s = ((True, []), s)"
| "apply_patches ci w series_dir already_checked (p # rest) s =
     (let s2 = save_patch w series_dir p s;
          failed = git_am w (fst s2) (patch_file series_dir p);
          s3 = call w (GitAm (patch_file series_dir p)) s2
      in if failed then
           (let output = git_stderr w (fst s3);
                s4 = call w GitAmAbort s3
            in if dry_run ci \<or> already_checked
               then ((False, output), observe (LogInfo ''Skip submitting the result to PW'') s4)
               else ((False, output), call w (PostCheck p ''pre-ci_am'' 3 output) s4))
         else if dry_run ci \<or> already_checked
         then apply_patches ci w series_dir already_checked rest
                (observe (LogInfo ''Skip submitting the result to PW: Success'') s3)
         else apply_patches ci w series_dir already_checked rest
                (call w (PostCheck p ''pre-ci_am'' 1 ''Success'') s3))"

text \<open>The branch \<open>if not verdict\<close>.\<close>

definition notify_submitter ::
  "ci_data \<Rightarrow> 'w env \<Rightarrow> series \<Rightarrow> bool \<Rightarrow> string \<Rightarrow> 'w state \<Rightarrow> (py_error + bool) \<times> 'w state" where
  "notify_submitter ci w series already_checked output s =
     (let s1 = observe (LogInfo ''PRE-CI AM failed. Notify the submitter'') s
      in if dry_run ci \<or> already_checked
         then (Inr False, observe (LogInfo ''Skip sending email'') s1)
         else (case send_email ci w series output s1 of
                 (Inl e, s2) \<Rightarrow> (Inl e, s2)
               | (Inr _, s2) \<Rightarrow> (Inr False, s2)))"

text \<open>The rest of the function, reached when every patch applied.\<close>

definition create_pull_request ::
  "ci_data \<Rightarrow> 'w env \<Rightarrow> series \<Rightarrow> 'w state \<Rightarrow> (py_error + bool) \<times> 'w state" where
  "create_pull_request ci w series s =
     (if disable_pr ci
      then (Inr True, observe (LogInfo ''Disable PR: Skip creating PR'') s)
      else
        (let sid = py_str_int (series_id series);
             failed = git_push w (fst s) sid;
             s1 = call w (GitPush sid) s
         in if failed
            then (Inr False, observe (LogError ''Failed to push the source to Github'') s1)
            else
              (let pr_title = ''[PW_SID:'' @ sid @ ''] '' @ py_str_opt (series_name series)
               in case patches series of
                    [] \<Rightarrow> (Inl IndexError, s1)
                  | p1 # _ \<Rightarrow>
                      (let patch_1 = get_patch w (fst s1) (patch_id p1);
                           s2 = observe (GetPatch (patch_id p1)) s1;
                           s3 = observe (LogInfo (''Creating PR: '' @ pr_title)) s2;
                           created = create_pr w (fst s3) pr_title (content patch_1) (branch ci) sid;
                           s4 = call w (CreatePr pr_title (content patch_1) (branch ci) sid) s3
                       in (Inr created, s4)))))"

definition series_dir :: "ci_data \<Rightarrow> series \<Rightarrow> string" where
  "series_dir ci series = os_path_join (temp_root ci) (py_str_int (series_id series))"

text \<open>
  The start of the function, up to the already-checked test: \<open>Inr None\<close> when it
  returns \<open>False\<close> at a failed checkout, \<open>Inr (Some already_checked)\<close> when it goes
  on to the patches. \<open>series['patches'][0]\<close> raises on a series without patches.
\<close>

definition prepare_branch ::
  "ci_data \<Rightarrow> 'w env \<Rightarrow> series \<Rightarrow> 'w state \<Rightarrow> (py_error + bool option) \<times> 'w state" where
  "prepare_branch ci w series s =
     (let sid = py_str_int (series_id series);
          found = path_exists w (fst s) (series_dir ci series);
          s1 = observe (PathExists (series_dir ci series)) s;
          s2 = (if \<not> found then call w (Makedirs (series_dir ci series)) s1 else s1);
          failed = git_checkout w (fst s2) (branch ci) False;
          s3 = call w (GitCheckout (branch ci) False) s2
      in if failed
         then (Inr None, observe (LogError (''ERROR: Failed: git checkout '' @ branch ci)) s3)
         else
           (let failed2 = git_checkout w (fst s3) sid True;
                s4 = call w (GitCheckout sid True) s3
            in if failed2
               then (Inr None, observe (LogError (''ERROR: Failed: git checkout -b '' @ sid)) s4)
               else
                 (case patches series of
                    [] \<Rightarrow> (Inl IndexError, s4)
                  | p1 # _ \<Rightarrow>
                      (let patch_1 = get_patch w (fst s4) (patch_id p1);
                           s5 = observe (GetPatch (patch_id p1)) s4;
                           already_checked = (check patch_1 \<noteq> ''pending'')
                       in if already_checked
                          then (Inr (Some True),
                                observe (LogInfo ''This series is already checked'') s5)
                          else (Inr (Some False), s5)))))"

definition series_check_patches ::
  "ci_data \<Rightarrow> 'w env \<Rightarrow> series \<Rightarrow> 'w state \<Rightarrow> (py_error + bool) \<times> 'w state" where
  "series_check_patches ci w series s =
     (case prepare_branch ci w series s of
        (Inl e, s1) \<Rightarrow> (Inl e, s1)
      | (Inr None, s1) \<Rightarrow> (Inr False, s1)
      | (Inr (Some already_checked), s1) \<Rightarrow>
          (let r = apply_patches ci w (series_dir ci series) already_checked (patches series) s1
           in if \<not> fst (fst r)
              then notify_submitter ci w series already_checked (snd (fst r)) (snd r)
              else create_pull_request ci w series (snd r)))"

section \<open>\<open>run_series\<close>\<close>

text \<open>
  One round of the loop \<open>for series in new_series\<close>. The series is returned because
  a null name is replaced in place, in the list the caller keeps.
\<close>

definition process_series ::
  "ci_data \<Rightarrow> 'w env \<Rightarrow> space_config \<Rightarrow> series \<Rightarrow> 'w state \<Rightarrow> (py_error + series) \<times> 'w state" where
  "process_series ci w details series s =
     (let s1 = observe (LogInfo (''\<newline>### Process Series: '' @ py_str_int (series_id series) @ '' ###'')) s
      in case (if series_name series = None
               then (case patches series of
                       [] \<Rightarrow> Inl IndexError
                     | patch_1 # _ \<Rightarrow> Inr (series\<lparr>series_name := Some (patch_name patch_1)\<rparr>))
               else Inr series) of
           Inl e \<Rightarrow> (Inl e, s1)
         | Inr series1 \<Rightarrow>
             (case filter_repo_space w details series1 (src_dir ci) s1 of
                (Inl e, s2) \<Rightarrow> (Inl e, s2)
              | (Inr belongs, s2) \<Rightarrow>
                  if \<not> belongs
                  then (Inr series1, observe (LogInfo ''Series is NOT for this repo'') s2)
                  else
                    (let tag = ''PW_SID:'' @ py_str_int (series_id series1);
                         found = pr_exist_title w (fst s2) tag;
                         s3 = call w (PrExistTitle tag) s2
                     in if found
                        then (Inr series1, observe (LogInfo ''PR exists already'') s3)
                        else (case series_check_patches ci w series1 s3 of
                                (Inl e, s4) \<Rightarrow> (Inl e, s4)
                              | (Inr _, s4) \<Rightarrow> (Inr series1, s4)))))"

fun run_series_loop ::
  "ci_data \<Rightarrow> 'w env \<Rightarrow> space_config \<Rightarrow> series list \<Rightarrow> 'w state
    \<Rightarrow> (py_error + series list) \<times> 'w state" where
  "run_series_loop ci w details [] s = (Inr [], s)"
| "run_series_loop ci w details (series # rest) s =
     (case process_series ci w details series s of
        (Inl e, s1) \<Rightarrow> (Inl e, s1)
      | (Inr series1, s1) \<Rightarrow>
          (case run_series_loop ci w details rest s1 of
             (Inl e, s2) \<Rightarrow> (Inl e, s2)
           | (Inr rest1, s2) \<Rightarrow> (Inr (series1 # rest1), s2)))"

definition run_series ::
  "ci_data \<Rightarrow> 'w env \<Rightarrow> series list \<Rightarrow> 'w state \<Rightarrow> (py_error + series list) \<times> 'w state" where
  "run_series ci w new_series s =
     (case space_details ci (space ci) of
        None \<Rightarrow> (Inl KeyError, s)
      | Some details \<Rightarrow> run_series_loop ci w details new_series s)"

section \<open>PRReconciler\<close>

text \<open>\<open>int(sid)\<close> is evaluated once per series compared, so not at all on an empty list.\<close>

fun sid_in_series_list :: "'w env \<Rightarrow> string \<Rightarrow> series list \<Rightarrow> py_error + series option" where
  "sid_in_series_list w sid [] = Inr None"
| "sid_in_series_list w sid (series # rest) =
     (case py_int w sid of
        Inl e \<Rightarrow> Inl e
      | Inr n \<Rightarrow> (if n = series_id series then Inr (Some series) else sid_in_series_list w sid rest))"

text \<open>
  The loop \<open>for pr in prs\<close>. \<open>not pw_sid\<close> holds for \<open>None\<close> and for the empty
  string; a series found is a non-empty dictionary, so truthy.
\<close>

fun cleanup_loop ::
  "'w env \<Rightarrow> series list \<Rightarrow> pull_request list \<Rightarrow> 'w state \<Rightarrow> (py_error + unit) \<times> 'w state" where
  "cleanup_loop w new_series [] s = (Inr (), s)"
| "cleanup_loop w new_series (pr # rest) s =
     (case pr_get_sid w (title pr) of
        None \<Rightarrow> cleanup_loop w new_series rest s
      | Some pw_sid \<Rightarrow>
          if pw_sid = [] then cleanup_loop w new_series rest s
          else
            (case sid_in_series_list w pw_sid new_series of
               Inl e \<Rightarrow> (Inl e, s)
             | Inr (Some _) \<Rightarrow> cleanup_loop w new_series rest s
             | Inr None \<Rightarrow> cleanup_loop w new_series rest (call w (ClosePr (number pr)) s)))"

definition cleanup_pullrequest ::
  "'w env \<Rightarrow> series list \<Rightarrow> 'w state \<Rightarrow> (py_error + unit) \<times> 'w state" where
  "cleanup_pullrequest w new_series s =
     (let prs = get_prs w (fst s) True;
          s1 = call w (GetPrs True) s
      in cleanup_loop w new_series prs s1)"

section \<open>\<open>main\<close>\<close>

text \<open>
  \<open>main\<close>: \<open>args_ok\<close> is what \<open>check_args\<close> returned (the program exits with
  status 1 when it is false) and \<open>ci\<close> the \<open>Context\<close> built from the arguments;
  the model starts at the fetch of the pending series.
\<close>

definition main :: "bool \<Rightarrow> ci_data \<Rightarrow> 'w env \<Rightarrow> 'w state \<Rightarrow> (py_error + unit) \<times> 'w state" where
  "main args_ok ci w s =
     (if \<not> args_ok then (Inl (SystemExit 1), s)
      else
        (let new_series = get_series_by_state w (fst s) 1;
             s1 = observe (GetSeriesByState 1) s
         in if length new_series = 0
            then (Inr (), observe (LogInfo ''No new patches/series found. Done. Exit'') s1)
            else
              (case run_series ci w new_series s1 of
                 (Inl e, s2) \<Rightarrow> (Inl e, s2)
               | (Inr series1, s2) \<Rightarrow> cleanup_pullrequest w series1 s2)))"

section \<open>Classes of events\<close>

fun is_push :: "event \<Rightarrow> bool" where
  "is_push (GitPush _) = True"
| "is_push _ = False"

fun is_create_pr :: "event \<Rightarrow> bool" where
  "is_create_pr (CreatePr _ _ _ _) = True"
| "is_create_pr _ = False"

fun is_post_check :: "event \<Rightarrow> bool" where
  "is_post_check (PostCheck _ _ _ _) = True"
| "is_post_check _ = False"

fun is_git_am :: "event \<Rightarrow> bool" where
  "is_git_am (GitAm _) = True"
| "is_git_am _ = False"

fun is_mbox_fetch :: "event \<Rightarrow> bool" where
  "is_mbox_fetch (GetPatchMbox _) = True"
| "is_mbox_fetch _ = False"

text \<open>Calls on the mail transport: recipients, composition, transmission.\<close>

fun is_email :: "event \<Rightarrow> bool" where
  "is_email (SetReceivers _) = True"
| "is_email (Compose _ _ _) = True"
| "is_email Send = True"
| "is_email _ = False"

fun is_get_prs :: "event \<Rightarrow> bool" where
  "is_get_prs (GetPrs _) = True"
| "is_get_prs _ = False"

fun is_close_pr :: "event \<Rightarrow> bool" where
  "is_close_pr (ClosePr _) = True"
| "is_close_pr _ = False"

fun is_path_check :: "event \<Rightarrow> bool" where
  "is_path_check (PathExists _) = True"
| "is_path_check _ = False"

section \<open>Notions used in the statements\<close>

text \<open>
  A removed-file marker line that does not contain \<open>dev/null\<close>, and one that does.
\<close>

definition is_kept_marker :: "string \<Rightarrow> bool" where
  "is_kept_marker l = (is_removed_marker l \<and> \<not> has_dev_null l)"

definition is_new_file_marker :: "string \<Rightarrow> bool" where
  "is_new_file_marker l = (is_removed_marker l \<and> has_dev_null l)"

definition kept_markers :: "string \<Rightarrow> string list" where
  "kept_markers d = filter is_kept_marker (py_split_nl d)"

text \<open>
  The path a marker line names (the text after \<open>--- \<close>), and a path without its
  leading segment up to and including the first \<open>/\<close>.
\<close>

definition marker_path :: "string \<Rightarrow> string" where
  "marker_path l = drop 4 l"

definition strip_prefix :: "string \<Rightarrow> string" where
  "strip_prefix p = tl (dropWhile (\<lambda>c. c \<noteq> CHR ''/'') p)"

text \<open>The marker lines whose path is not exactly \<open>/dev/null\<close>.\<close>

definition non_sentinel_markers :: "string \<Rightarrow> string list" where
  "non_sentinel_markers d =
     filter (\<lambda>l. is_removed_marker l \<and> marker_path l \<noteq> ''/dev/null'') (py_split_nl d)"

text \<open>
  The scan of \<open>patch_get_new_file_list\<close> as a direct recursion: the line after a
  marker line containing \<open>dev/null\<close> is consumed as a file name.
\<close>

fun new_files :: "string list \<Rightarrow> string list" where
  "new_files [] = []"
| "new_files [l] = []"
| "new_files (l # l2 # rest) =
     (if is_new_file_marker l then after_first_slash l2 # new_files rest
      else new_files (l2 # rest))"

text \<open>
  The lists the two parsers return for a diff, whatever the state they are called
  in. \<open>fileListExcludingNew\<close> is the list of a series in the words of the
  specification: the entries of \<open>fileList\<close> over every patch of the series, in
  order, without any path that is also in \<open>newFileList\<close> of some patch of the
  series. The diffs are those the tracker gives in the state \<open>\<sigma>\<close>.
\<close>

definition fileList :: "string option \<Rightarrow> string list" where
  "fileList d = fst (patch_get_file_list d ((), []))"

definition newFileList :: "string option \<Rightarrow> string list" where
  "newFileList d = (case fst (patch_get_new_file_list d ((), [])) of Inl e \<Rightarrow> [] | Inr r \<Rightarrow> r)"

definition fileListExcludingNew :: "'w env \<Rightarrow> 'w \<Rightarrow> series \<Rightarrow> string list" where
  "fileListExcludingNew w \<sigma> series =
     (let diffs = map (\<lambda>p. diff (get_patch w \<sigma> (patch_id p))) (patches series)
      in filter (\<lambda>f. f \<notin> set (concat (map newFileList diffs))) (concat (map fileList diffs)))"

text \<open>
  The lookup the code makes for an entry of the file list:
  \<open>os.path.exists(os.path.join(src_dir, filename))\<close>. It is the code's test, not the
  notion of the specification: for an entry that starts with \<open>/\<close> the joined path
  is the entry itself, whatever the source directory.
\<close>

definition lookup_exists :: "'w env \<Rightarrow> 'w \<Rightarrow> string \<Rightarrow> string \<Rightarrow> bool" where
  "lookup_exists w \<sigma> src f = path_exists w \<sigma> (os_path_join src f)"

text \<open>
  A path exists under the source-tree root, in the words of the specification. The
  path has to stay inside the root: it is relative, and walking its segments from
  the root never takes \<open>..\<close> above it (empty segments and \<open>.\<close> stay in place). Its
  location is then the root, a \<open>/\<close> unless the root is empty or ends in one, and the
  path.
\<close>

fun segments_acc :: "string \<Rightarrow> string \<Rightarrow> string list" where
  "segments_acc cur [] = [cur]"
| "segments_acc cur (c # cs) =
     (if c = CHR ''/'' then cur # segments_acc [] cs else segments_acc (cur @ [c]) cs)"

fun climbs_out :: "nat \<Rightarrow> string list \<Rightarrow> bool" where
  "climbs_out depth [] = False"
| "climbs_out depth (seg # segs) =
     (if seg = ''..'' then (depth = 0 \<or> climbs_out (depth - 1) segs)
      else if seg = [] \<or> seg = ''.'' then climbs_out depth segs
      else climbs_out (Suc depth) segs)"

definition stays_inside :: "string \<Rightarrow> bool" where
  "stays_inside f = (take 1 f \<noteq> ''/'' \<and> \<not> climbs_out 0 (segments_acc [] f))"

definition under_root :: "string \<Rightarrow> string \<Rightarrow> string" where
  "under_root root f =
     (if root = [] \<or> last root = CHR ''/'' then root @ f else root @ ''/'' @ f)"

definition exists_under_root :: "'w env \<Rightarrow> 'w \<Rightarrow> string \<Rightarrow> string \<Rightarrow> bool" where
  "exists_under_root w \<sigma> root f = (stays_inside f \<and> path_exists w \<sigma> (under_root root f))"

text \<open>The success verdict posted for a patch.\<close>

definition success_report :: "patch \<Rightarrow> event" where
  "success_report p = PostCheck p ''pre-ci_am'' 1 ''Success''"

text \<open>
  The title of a pull request gives no tag, or one that \<open>int\<close> accepts; and a pull
  request is stale when its title gives a tag whose number is the id of no series of
  the list.
\<close>

definition tag_parses :: "'w env \<Rightarrow> pull_request \<Rightarrow> bool" where
  "tag_parses w pr =
     (case pr_get_sid w (title pr) of
        None \<Rightarrow> True
      | Some sid \<Rightarrow> sid = [] \<or> (case py_int w sid of Inl e \<Rightarrow> False | Inr n \<Rightarrow> True))"

definition is_stale :: "'w env \<Rightarrow> series list \<Rightarrow> pull_request \<Rightarrow> bool" where
  "is_stale w new_series pr =
     (case pr_get_sid w (title pr) of
        None \<Rightarrow> False
      | Some sid \<Rightarrow>
          sid \<noteq> [] \<and>
          (case py_int w sid of
             Inl e \<Rightarrow> False
           | Inr n \<Rightarrow> n \<notin> series_id ` set new_series))"

section \<open>An example environment\<close>

text \<open>\<open>int(text)\<close> on a non-empty string of ASCII digits; anything else is refused.\<close>

definition is_digit :: "char \<Rightarrow> bool" where
  "is_digit c = (c \<in> set ''0123456789'')"

definition dec_int :: "string \<Rightarrow> py_error + int" where
  "dec_int t =
     (if t \<noteq> [] \<and> list_all is_digit t
      then Inr (foldl (\<lambda>a c. 10 * a + (int (of_char c) - 48)) 0 t)
      else Inl ValueError)"

text \<open>
  Modelled from the spec: \<open>pr_get_sid\<close> belongs to \<open>libs\<close>, which is not among the
  sources. It parses a title for the tag \<open>[PW_SID:<integer>]\<close>, tolerant of the
  text around it, and yields the digits of the first tag found.
\<close>

definition tag_here :: "string \<Rightarrow> string option" where
  "tag_here t =
     (if take 8 t = ''[PW_SID:'' then
        (let ds = takeWhile is_digit (drop 8 t);
             rest = dropWhile is_digit (drop 8 t)
         in if ds \<noteq> [] \<and> take 1 rest = '']'' then Some ds else None)
      else None)"

fun find_tag :: "string \<Rightarrow> string option" where
  "find_tag [] = None"
| "find_tag (c # cs) = (case tag_here (c # cs) of Some ds \<Rightarrow> Some ds | None \<Rightarrow> find_tag cs)"

text \<open>
  A matcher for the patterns of the examples: literal text, anchored at the start
  by a leading \<open>^\<close>, compared without regard to the case of ASCII letters.
\<close>

definition lower_char :: "char \<Rightarrow> char" where
  "lower_char c =
     (if (65::nat) \<le> of_char c \<and> of_char c \<le> (90::nat) then char_of (of_char c + (32::nat)) else c)"

definition lit_search :: "string \<Rightarrow> string \<Rightarrow> bool" where
  "lit_search pat t =
     (case pat of
        [] \<Rightarrow> True
      | c # lit \<Rightarrow>
          if c = CHR ''^'' then take (length lit) (map lower_char t) = map lower_char lit
          else py_contains (map lower_char pat) (map lower_char t))"

definition demo_patches :: "patch list" where
  "demo_patches =
     [\<lparr>patch_id = 1, patch_name = ''first'', msgid = ''<m1>''\<rparr>,
      \<lparr>patch_id = 2, patch_name = ''second'', msgid = ''<m2>''\<rparr>,
      \<lparr>patch_id = 3, patch_name = ''third'', msgid = ''<m3>''\<rparr>]"

definition demo_series :: series where
  "demo_series =
     \<lparr>series_id = 7, series_name = Some ''BlueZ: fix'', patches = demo_patches,
      submitter_email = ''dev@example.org''\<rparr>"

definition demo_ci :: ci_data where
  "demo_ci =
     \<lparr>dry_run = False, disable_pr = False, branch = ''master'', temp_root = ''/tmp/ci'',
      space = ''user'',
      space_details = [''user'' \<mapsto> \<lparr>sd_include = [''^BlueZ''], sd_exclude = [''^RFC'']\<rparr>],
      email = \<lparr>only_maintainers = None, maintainers = [''m@example.org''],
               default_to = ''list@example.org''\<rparr>,
      src_dir = ''src''\<rparr>"

definition demo_env :: "unit env" where
  "demo_env =
     \<lparr>step = (\<lambda>\<sigma> ev. \<sigma>),
      get_series_by_state = (\<lambda>\<sigma> st. [demo_series]),
      get_patch = (\<lambda>\<sigma> i. \<lparr>diff = Some ''--- a/Makefile\<newline>+++ b/Makefile'',
                              content = ''body'', check = ''pending''\<rparr>),
      get_patch_mbox = (\<lambda>\<sigma> i. ''mbox''),
      path_exists = (\<lambda>\<sigma> p. p = ''src/Makefile''),
      git_checkout = (\<lambda>\<sigma> r c. False),
      git_am = (\<lambda>\<sigma> p. p = ''/tmp/ci/7/2.patch''),
      git_stderr = (\<lambda>\<sigma>. ''error: patch failed''),
      git_push = (\<lambda>\<sigma> b. False),
      create_pr = (\<lambda>\<sigma> t b base h. True),
      pr_exist_title = (\<lambda>\<sigma> t. False),
      get_prs = (\<lambda>\<sigma> f. [\<lparr>number = 1, title = ''[PW_SID:10] foo''\<rparr>,
                            \<lparr>number = 2, title = ''[PW_SID:99] bar''\<rparr>,
                            \<lparr>number = 3, title = ''Unrelated PR''\<rparr>]),
      re_search_ic = lit_search,
      py_int = dec_int,
      pr_get_sid = find_tag\<rparr>"

definition demo_diff :: string where
  "demo_diff =
     ''--- a/src/main.c\<newline>+++ b/src/main.c\<newline>--- /dev/null\<newline>+++ b/new.c\<newline>--- a/Makefile''"

definition mixed_diff :: string where
  "mixed_diff =
     ''--- a/x.c\<newline>+++ b/x.c\<newline>--- a/dev/null_helper.c\<newline>+++ b/dev/null_helper.c''"

definition nested_diff :: string where
  "nested_diff = ''--- /dev/null\<newline>--- a/dev/null_x\<newline>+++ b/foo''"

text \<open>
  Variants of the example: a dry run, patches that all apply, an empty queue, an
  empty source tree, series with other names or another id, other patterns, a diff
  that names a file outside the tree, a pending series without patches.
\<close>

definition dry_ci :: ci_data where
  "dry_ci = demo_ci\<lparr>dry_run := True\<rparr>"

definition clean_env :: "unit env" where
  "clean_env = demo_env\<lparr>git_am := (\<lambda>\<sigma> p. False)\<rparr>"

definition idle_env :: "unit env" where
  "idle_env = demo_env\<lparr>get_series_by_state := (\<lambda>\<sigma> st. [])\<rparr>"

definition bare_env :: "unit env" where
  "bare_env = demo_env\<lparr>path_exists := (\<lambda>\<sigma> p. False)\<rparr>"

definition rfc_series :: series where
  "rfc_series = demo_series\<lparr>series_name := Some ''RFC: BlueZ feature''\<rparr>"

definition misc_series :: series where
  "misc_series = demo_series\<lparr>series_name := Some ''misc: tidy''\<rparr>"

definition rfc_details :: space_config where
  "rfc_details = \<lparr>sd_include = [''BlueZ''], sd_exclude = [''^RFC'']\<rparr>"

definition demo_details :: space_config where
  "demo_details = \<lparr>sd_include = [''^BlueZ''], sd_exclude = [''^RFC'']\<rparr>"

definition pending_ten :: series where
  "pending_ten = demo_series\<lparr>series_id := 10\<rparr>"

definition outside_env :: "unit env" where
  "outside_env =
     demo_env\<lparr>get_patch := (\<lambda>\<sigma> i. \<lparr>diff = Some ''--- a//etc/hostname\<newline>+++ b//etc/hostname'',
                                        content = ''body'', check = ''pending''\<rparr>),
              path_exists := (\<lambda>\<sigma> p. p = ''/etc/hostname'')\<rparr>"

definition hollow_env :: "unit env" where
  "hollow_env = demo_env\<lparr>get_series_by_state := (\<lambda>\<sigma> st. [demo_series\<lparr>patches := []\<rparr>])\<rparr>"

section \<open>Properties\<close>

subsection \<open>State bookkeeping\<close>

lemma fst_call [simp]: "fst (call w ev s) = step w (fst s) ev"
  by (simp add: call_def)

lemma snd_call [simp]: "snd (call w ev s) = snd s @ [ev]"
  by (simp add: call_def)

lemma fst_observe [simp]: "fst (observe ev s) = fst s"
  by (simp add: observe_def)

lemma snd_observe [simp]: "snd (observe ev s) = snd s @ [ev]"
  by (simp add: observe_def)

lemma pair_fst: "fst p = a \<Longrightarrow> p = (a, snd p)"
  by auto

subsection \<open>DiffAnalyzer\<close>

lemma file_loop_eq:
  "file_loop ls acc = acc @ map after_first_slash (filter is_kept_marker ls)"
  by (induction ls arbitrary: acc) (auto simp: is_kept_marker_def)

lemma new_file_loop_eq: "new_file_loop it acc = Inr (acc @ new_files it)"
  by (induction it arbitrary: acc rule: new_files.induct)
     (auto simp: new_file_try_def is_new_file_marker_def)

lemma new_files_append:
  "pre = [] \<or> \<not> is_new_file_marker (last pre) \<Longrightarrow>
   new_files (pre @ rest) = new_files pre @ new_files rest"
proof (induction pre rule: new_files.induct)
  case 1
  show ?case by simp
next
  case (2 l)
  then show ?case by (cases rest) simp_all
next
  case (3 l l2 ps)
  show ?case
  proof (cases "is_new_file_marker l")
    case True
    from 3(3) have "ps = [] \<or> \<not> is_new_file_marker (last ps)"
      by (cases ps) simp_all
    from 3(1) [OF True this] True show ?thesis by simp
  next
    case False
    from 3(3) have "l2 # ps = [] \<or> \<not> is_new_file_marker (last (l2 # ps))"
      by simp
    from 3(2) [OF False this] False show ?thesis by simp
  qed
qed

lemma marker_strip:
  assumes "is_removed_marker l" and "CHR ''/'' \<in> set (marker_path l)"
  shows "after_first_slash l = strip_prefix (marker_path l)"
proof -
  have l: "l = ''--- '' @ marker_path l"
    using assms(1) append_take_drop_id [of 4 l]
    by (simp add: is_removed_marker_def marker_path_def)
  have "dropWhile (\<lambda>c. c \<noteq> CHR ''/'') l = dropWhile (\<lambda>c. c \<noteq> CHR ''/'') (marker_path l)"
    by (subst l) simp
  moreover have "dropWhile (\<lambda>c. c \<noteq> CHR ''/'') (marker_path l) \<noteq> []"
    using assms(2) by (simp add: dropWhile_eq_Nil_conv)
  ultimately show ?thesis
    by (auto simp: after_first_slash_def strip_prefix_def split: list.splits)
qed

text \<open>
  C4 (as amended). The sentinel test is a substring test, so the lines that count
  are the marker lines that do not contain \<open>dev/null\<close>: for every diff text with
  \<open>N\<close> such lines, \<open>patch_get_file_list\<close> returns exactly \<open>N\<close> entries, in
  the order of the lines, and the entry of each marker whose path contains a \<open>/\<close>
  is that path with its leading segment, up to and including the first \<open>/\<close>,
  removed.
\<close>

theorem file_list_entries:
  "length (fst (patch_get_file_list (Some d) s)) = length (kept_markers d) \<and>
   (\<forall>i < length (kept_markers d).
      CHR ''/'' \<in> set (marker_path (kept_markers d ! i)) \<longrightarrow>
      fst (patch_get_file_list (Some d) s) ! i = strip_prefix (marker_path (kept_markers d ! i)))"
proof -
  have eq: "fst (patch_get_file_list (Some d) s) = map after_first_slash (kept_markers d)"
    by (simp add: patch_get_file_list_def file_loop_eq kept_markers_def)
  have "after_first_slash (kept_markers d ! i) = strip_prefix (marker_path (kept_markers d ! i))"
    if "i < length (kept_markers d)" "CHR ''/'' \<in> set (marker_path (kept_markers d ! i))" for i
  proof -
    have "kept_markers d ! i \<in> set (kept_markers d)"
      using that(1) by simp
    then have "is_removed_marker (kept_markers d ! i)"
      by (simp add: kept_markers_def is_kept_marker_def)
    then show ?thesis
      using that(2) by (rule marker_strip)
  qed
  then show ?thesis
    by (simp add: eq)
qed

theorem file_list_entries_witness:
  "length (fst (patch_get_file_list (Some demo_diff) ((), []))) = 2 \<and>
   (1::nat) < length (kept_markers demo_diff) \<and>
   CHR ''/'' \<in> set (marker_path (kept_markers demo_diff ! 1)) \<and>
   marker_path (kept_markers demo_diff ! 1) = ''a/Makefile'' \<and>
   fst (patch_get_file_list (Some demo_diff) ((), [])) ! 1 = ''Makefile''"
proof -
  have n: "length (kept_markers demo_diff) = 2"
    by code_simp
  have p: "marker_path (kept_markers demo_diff ! 1) = ''a/Makefile''"
    by code_simp
  have q: "strip_prefix ''a/Makefile'' = ''Makefile''"
    by code_simp
  from file_list_entries [of demo_diff "((), [])"] n p q
  have "length (fst (patch_get_file_list (Some demo_diff) ((), []))) = 2"
    and "fst (patch_get_file_list (Some demo_diff) ((), [])) ! 1 = ''Makefile''"
    by simp_all
  with n p show ?thesis
    by simp
qed

text \<open>
  C4 as stated fails: the marker \<open>--- a/dev/null_helper.c\<close> does not name the
  sentinel \<open>/dev/null\<close>, yet it yields no entry. (And a marker whose path has no
  \<open>/\<close> yields the whole line, dashes included: there is no first \<open>/\<close> to cut at.)
\<close>

theorem file_list_sentinel_counterexample:
  "non_sentinel_markers ''--- a/dev/null_helper.c'' = [''--- a/dev/null_helper.c''] \<and>
   fst (patch_get_file_list (Some ''--- a/dev/null_helper.c'') ((), [])) = [] \<and>
   fst (patch_get_file_list (Some ''--- Makefile'') ((), [])) = [''--- Makefile'']"
  by code_simp

lemma new_file_list_eq:
  "fst (patch_get_new_file_list (Some t) s) = Inr (new_files (py_split_nl t))"
  by (simp add: patch_get_new_file_list_def new_file_loop_eq)

lemma file_list_eq:
  "fst (patch_get_file_list (Some t) s) = map after_first_slash (filter is_kept_marker (py_split_nl t))"
  by (simp add: patch_get_file_list_def file_loop_eq)

text \<open>
  C9 (as amended). \<open>patch_get_new_file_list\<close> returns a list on every input, the
  only error its body can raise being the \<open>StopIteration\<close> it catches, and
  \<open>patch_get_file_list\<close> contains no operation that can raise. On a null diff both
  return the empty list and log the warning. \<open>patch_get_file_list\<close> reads no
  following line: it handles the last line like any other. When the last line is a
  marker line containing \<open>dev/null\<close> that is not directly preceded by another such
  line, both parsers skip it: each returns what the lines before it give.
\<close>

theorem diff_lists_never_raise:
  "(\<exists>r. fst (patch_get_new_file_list d s) = Inr r) \<and>
   patch_get_file_list None s = ([], observe (LogError ''WARNING: No file found in patch'') s) \<and>
   patch_get_new_file_list None s =
     (Inr [], observe (LogError ''WARNING: No file found in patch'') s) \<and>
   (\<forall>pre m. py_split_nl t = pre @ [m] \<longrightarrow>
      fst (patch_get_file_list (Some t) s) =
        file_loop pre [] @ (if is_kept_marker m then [after_first_slash m] else [])) \<and>
   (\<forall>pre m. py_split_nl t = pre @ [m] \<and> is_new_file_marker m \<and>
            (pre = [] \<or> \<not> is_new_file_marker (last pre)) \<longrightarrow>
      fst (patch_get_file_list (Some t) s) = file_loop pre [] \<and>
      fst (patch_get_new_file_list (Some t) s) = new_file_loop pre [])"
proof -
  have total: "\<exists>r. fst (patch_get_new_file_list d s) = Inr r"
    by (cases d) (simp_all add: patch_get_new_file_list_def new_file_loop_eq)
  have any: "fst (patch_get_file_list (Some t) s) =
        file_loop pre [] @ (if is_kept_marker m then [after_first_slash m] else [])"
    if "py_split_nl t = pre @ [m]" for pre m
    by (simp add: file_list_eq that file_loop_eq)
  have last: "fst (patch_get_file_list (Some t) s) = file_loop pre [] \<and>
      fst (patch_get_new_file_list (Some t) s) = new_file_loop pre []"
    if "py_split_nl t = pre @ [m]" "is_new_file_marker m"
      "pre = [] \<or> \<not> is_new_file_marker (last pre)" for pre m
  proof -
    have "\<not> is_kept_marker m"
      using that(2) by (simp add: is_new_file_marker_def is_kept_marker_def)
    then have "fst (patch_get_file_list (Some t) s) = file_loop pre []"
      using any [OF that(1)] by simp
    moreover have "fst (patch_get_new_file_list (Some t) s) = new_file_loop pre []"
      using new_files_append [OF that(3), of "[m]"]
      by (simp add: new_file_list_eq that(1) new_file_loop_eq)
    ultimately show ?thesis
      by simp
  qed
  have none: "patch_get_file_list None s =
      ([], observe (LogError ''WARNING: No file found in patch'') s)"
    "patch_get_new_file_list None s =
      (Inr [], observe (LogError ''WARNING: No file found in patch'') s)"
    by (simp_all add: patch_get_file_list_def patch_get_new_file_list_def)
  from total none any last show ?thesis
    by blast
qed

theorem diff_lists_never_raise_witness:
  "py_split_nl ''--- a/x.c\<newline>--- /dev/null'' = [''--- a/x.c''] @ [''--- /dev/null''] \<and>
   is_new_file_marker ''--- /dev/null'' \<and>
   \<not> is_new_file_marker (last [''--- a/x.c'']) \<and>
   fst (patch_get_file_list (Some ''--- a/x.c\<newline>--- /dev/null'') ((), [])) = [''x.c''] \<and>
   fst (patch_get_new_file_list (Some ''--- a/x.c\<newline>--- /dev/null'') ((), [])) = Inr []"
proof -
  have a: "py_split_nl ''--- a/x.c\<newline>--- /dev/null'' = [''--- a/x.c''] @ [''--- /dev/null'']"
    by code_simp
  have b: "is_new_file_marker ''--- /dev/null''"
    by code_simp
  have c: "\<not> is_new_file_marker (last [''--- a/x.c''])"
    by code_simp
  have f: "file_loop [''--- a/x.c''] [] = [''x.c'']"
    by code_simp
  have n: "new_file_loop [''--- a/x.c''] [] = Inr []"
    by code_simp
  from diff_lists_never_raise [of None "((), [])" "''--- a/x.c\<newline>--- /dev/null''"] a b c
  have "fst (patch_get_file_list (Some ''--- a/x.c\<newline>--- /dev/null'') ((), [])) =
          file_loop [''--- a/x.c''] [] \<and>
        fst (patch_get_new_file_list (Some ''--- a/x.c\<newline>--- /dev/null'') ((), [])) =
          new_file_loop [''--- a/x.c''] []"
    by blast
  with f n have fl: "fst (patch_get_file_list (Some ''--- a/x.c\<newline>--- /dev/null'') ((), [])) = [''x.c'']"
    and nf: "fst (patch_get_new_file_list (Some ''--- a/x.c\<newline>--- /dev/null'') ((), [])) = Inr []"
    by simp_all
  show ?thesis
    by (intro conjI a b c fl nf)
qed

text \<open>
  C9 as stated fails: a marker on the last line is not always skipped. After a
  marker line containing \<open>dev/null\<close>, a last line that is itself such a marker is
  read as a file name and emitted by \<open>patch_get_new_file_list\<close>; and
  \<open>patch_get_file_list\<close> emits the path of an ordinary marker on the last line.
\<close>

theorem last_line_marker_emitted_counterexample:
  "py_split_nl ''--- /dev/null\<newline>--- /dev/null'' = [''--- /dev/null'', ''--- /dev/null''] \<and>
   is_removed_marker ''--- /dev/null'' \<and>
   fst (patch_get_new_file_list (Some ''--- /dev/null\<newline>--- /dev/null'') ((), [])) =
     Inr [''dev/null''] \<and>
   py_split_nl ''+++ b/y\<newline>--- a/x.c'' = [''+++ b/y'', ''--- a/x.c''] \<and>
   is_removed_marker ''--- a/x.c'' \<and>
   fst (patch_get_file_list (Some ''+++ b/y\<newline>--- a/x.c'') ((), [])) = [''x.c'']"
  by code_simp

text \<open>
  C10 (as amended). The sentinel test is a substring test. A marker line \<open>m\<close> that
  contains \<open>dev/null\<close> anywhere yields no entry of \<open>patch_get_file_list\<close>: the
  result is made of the entries of the other lines. If \<open>m\<close> is not directly
  preceded by another such marker line, \<open>patch_get_new_file_list\<close> treats it as a
  file creation: it returns what the lines before \<open>m\<close> give, then, when a line
  follows \<open>m\<close>, the text after that line's first \<open>/\<close>, then what the lines
  behind that line give.
\<close>

theorem sentinel_is_substring:
  assumes "py_split_nl d = pre @ m # rest" and "is_removed_marker m" and "has_dev_null m"
  shows "fst (patch_get_file_list (Some d) s) =
           map after_first_slash (filter is_kept_marker pre) @
           map after_first_slash (filter is_kept_marker rest) \<and>
         (pre = [] \<or> \<not> is_new_file_marker (last pre) \<longrightarrow>
            (\<exists>r1. new_file_loop pre [] = Inr r1 \<and>
               (case rest of
                  [] \<Rightarrow> fst (patch_get_new_file_list (Some d) s) = Inr r1
                | nxt # post \<Rightarrow>
                    (\<exists>r2. new_file_loop post [] = Inr r2 \<and>
                          fst (patch_get_new_file_list (Some d) s) =
                            Inr (r1 @ after_first_slash nxt # r2)))))"
proof -
  have m: "is_new_file_marker m" "\<not> is_kept_marker m"
    using assms(2,3) by (simp_all add: is_new_file_marker_def is_kept_marker_def)
  have "fst (patch_get_file_list (Some d) s) =
           map after_first_slash (filter is_kept_marker pre) @
           map after_first_slash (filter is_kept_marker rest)"
    using m(2) by (simp add: file_list_eq assms(1))
  moreover have "\<exists>r1. new_file_loop pre [] = Inr r1 \<and>
               (case rest of
                  [] \<Rightarrow> fst (patch_get_new_file_list (Some d) s) = Inr r1
                | nxt # post \<Rightarrow>
                    (\<exists>r2. new_file_loop post [] = Inr r2 \<and>
                          fst (patch_get_new_file_list (Some d) s) =
                            Inr (r1 @ after_first_slash nxt # r2)))"
    if "pre = [] \<or> \<not> is_new_file_marker (last pre)"
    using m(1) new_files_append [OF that, of "m # rest"]
    by (cases rest) (simp_all add: new_file_list_eq assms(1) new_file_loop_eq)
  ultimately show ?thesis
    by blast
qed

theorem sentinel_is_substring_witness:
  "py_split_nl mixed_diff =
     [''--- a/x.c'', ''+++ b/x.c''] @ ''--- a/dev/null_helper.c'' # [''+++ b/dev/null_helper.c''] \<and>
   is_removed_marker ''--- a/dev/null_helper.c'' \<and> has_dev_null ''--- a/dev/null_helper.c'' \<and>
   \<not> is_new_file_marker (last [''--- a/x.c'', ''+++ b/x.c'']) \<and>
   fst (patch_get_file_list (Some mixed_diff) ((), [])) = [''x.c''] \<and>
   fst (patch_get_new_file_list (Some mixed_diff) ((), [])) = Inr [''dev/null_helper.c'']"
proof -
  have a: "py_split_nl mixed_diff =
     [''--- a/x.c'', ''+++ b/x.c''] @ ''--- a/dev/null_helper.c'' # [''+++ b/dev/null_helper.c'']"
    by code_simp
  have b: "is_removed_marker ''--- a/dev/null_helper.c''" "has_dev_null ''--- a/dev/null_helper.c''"
    by code_simp+
  have c: "\<not> is_new_file_marker (last [''--- a/x.c'', ''+++ b/x.c''])"
    by code_simp
  have f: "map after_first_slash (filter is_kept_marker [''--- a/x.c'', ''+++ b/x.c'']) = [''x.c'']"
    "filter is_kept_marker [''+++ b/dev/null_helper.c''] = []"
    by code_simp+
  have n: "new_file_loop [''--- a/x.c'', ''+++ b/x.c''] [] = Inr []"
    "new_file_loop [] [] = Inr []"
    "after_first_slash ''+++ b/dev/null_helper.c'' = ''dev/null_helper.c''"
    by code_simp+
  note t = sentinel_is_substring [OF a b, of "((), [])"]
  from t f have fl: "fst (patch_get_file_list (Some mixed_diff) ((), [])) = [''x.c'']"
    by simp
  from t c n have nf: "fst (patch_get_new_file_list (Some mixed_diff) ((), [])) = Inr [''dev/null_helper.c'']"
    by simp
  show ?thesis
    by (intro conjI a b c fl nf)
qed

text \<open>
  C10 as stated fails for a marker line that directly follows a consumed marker:
  the second line below is a marker line containing \<open>dev/null\<close>, yet it is read as a
  file name, and the \<open>foo\<close> of the line after it is not emitted.
\<close>

theorem sentinel_after_sentinel_counterexample:
  "py_split_nl nested_diff = [''--- /dev/null'', ''--- a/dev/null_x'', ''+++ b/foo''] \<and>
   is_removed_marker ''--- a/dev/null_x'' \<and> has_dev_null ''--- a/dev/null_x'' \<and>
   after_first_slash ''+++ b/foo'' = ''foo'' \<and>
   fst (patch_get_new_file_list (Some nested_diff) ((), [])) = Inr [''dev/null_x'']"
  by code_simp

subsection \<open>RepoSpaceFilter\<close>

lemma name_matches_Some:
  "name_matches w ps (Some n) = Inr (\<exists>p\<in>set ps. re_search_ic w p n)"
  by (induction ps) auto

lemma patch_get_file_list_fst: "fst (patch_get_file_list d s) = fileList d"
  by (cases d) (simp_all add: patch_get_file_list_def fileList_def)

lemma patch_get_file_list_world: "fst (snd (patch_get_file_list d s)) = fst s"
  by (cases d) (simp_all add: patch_get_file_list_def)

lemma patch_get_new_file_list_fst: "fst (patch_get_new_file_list d s) = Inr (newFileList d)"
  by (cases d) (simp_all add: patch_get_new_file_list_def newFileList_def new_file_loop_eq)

lemma patch_get_new_file_list_world: "fst (snd (patch_get_new_file_list d s)) = fst s"
  by (cases d) (simp_all add: patch_get_new_file_list_def)

lemma patch_get_file_list_checks:
  "filter is_path_check (snd (snd (patch_get_file_list d s))) = filter is_path_check (snd s)"
  "filter is_get_prs (snd (snd (patch_get_file_list d s))) = filter is_get_prs (snd s)"
  by (cases d; simp add: patch_get_file_list_def)+

lemma patch_get_new_file_list_checks:
  "filter is_path_check (snd (snd (patch_get_new_file_list d s))) = filter is_path_check (snd s)"
  "filter is_get_prs (snd (snd (patch_get_new_file_list d s))) = filter is_get_prs (snd s)"
  by (cases d; simp add: patch_get_new_file_list_def)+

lemma series_files_loop_True:
  "fst (series_files_loop w True ps fl nfl s) =
     Inr (fl @ concat (map (\<lambda>p. fileList (diff (get_patch w (fst s) (patch_id p)))) ps),
          nfl @ concat (map (\<lambda>p. newFileList (diff (get_patch w (fst s) (patch_id p)))) ps)) \<and>
   fst (snd (series_files_loop w True ps fl nfl s)) = fst s \<and>
   filter is_path_check (snd (snd (series_files_loop w True ps fl nfl s))) =
     filter is_path_check (snd s) \<and>
   filter is_get_prs (snd (snd (series_files_loop w True ps fl nfl s))) =
     filter is_get_prs (snd s)"
proof (induction ps arbitrary: fl nfl s)
  case Nil
  show ?case by simp
next
  case (Cons p ps)
  let ?d = "diff (get_patch w (fst s) (patch_id p))"
  let ?s1 = "observe (GetPatch (patch_id p)) s"
  let ?r = "patch_get_file_list ?d ?s1"
  obtain s3 where n: "patch_get_new_file_list ?d (snd ?r) = (Inr (newFileList ?d), s3)"
    using patch_get_new_file_list_fst [of ?d "snd ?r"]
    by (cases "patch_get_new_file_list ?d (snd ?r)") simp
  have w3: "fst s3 = fst s"
    using patch_get_new_file_list_world [of ?d "snd ?r"] patch_get_file_list_world [of ?d ?s1]
    by (simp add: n)
  have c3: "filter is_path_check (snd s3) = filter is_path_check (snd s)"
    using patch_get_new_file_list_checks(1) [of ?d "snd ?r"]
      patch_get_file_list_checks(1) [of ?d ?s1]
    by (simp add: n)
  have g3: "filter is_get_prs (snd s3) = filter is_get_prs (snd s)"
    using patch_get_new_file_list_checks(2) [of ?d "snd ?r"]
      patch_get_file_list_checks(2) [of ?d ?s1]
    by (simp add: n)
  have step: "series_files_loop w True (p # ps) fl nfl s =
              series_files_loop w True ps (fl @ fileList ?d) (nfl @ newFileList ?d) s3"
    by (simp add: Let_def n patch_get_file_list_fst)
  show ?case
    unfolding step using Cons.IH [of "fl @ fileList ?d" "nfl @ newFileList ?d" s3]
    by (simp add: w3 c3 g3)
qed

lemma series_get_file_list_True:
  "fst (series_get_file_list w series True s) = Inr (fileListExcludingNew w (fst s) series) \<and>
   fst (snd (series_get_file_list w series True s)) = fst s \<and>
   filter is_path_check (snd (snd (series_get_file_list w series True s))) =
     filter is_path_check (snd s) \<and>
   filter is_get_prs (snd (snd (series_get_file_list w series True s))) =
     filter is_get_prs (snd s)"
proof -
  obtain r s1 where r: "series_files_loop w True (patches series) [] [] s = (r, s1)"
    by (cases "series_files_loop w True (patches series) [] [] s")
  from series_files_loop_True [of w "patches series" "[]" "[]" s] r
  have "r = Inr (concat (map (\<lambda>p. fileList (diff (get_patch w (fst s) (patch_id p)))) (patches series)),
                 concat (map (\<lambda>p. newFileList (diff (get_patch w (fst s) (patch_id p)))) (patches series)))"
    and "fst s1 = fst s"
    and "filter is_path_check (snd s1) = filter is_path_check (snd s)"
    and "filter is_get_prs (snd s1) = filter is_get_prs (snd s)"
    by simp_all
  then show ?thesis
    by (simp add: series_get_file_list_def r fileListExcludingNew_def Let_def comp_def)
qed

lemma files_exist_eq:
  "fst (files_exist w src fl s) = (\<forall>f\<in>set fl. lookup_exists w (fst s) src f) \<and>
   fst (snd (files_exist w src fl s)) = fst s \<and>
   filter is_path_check (snd (snd (files_exist w src fl s))) =
     filter is_path_check (snd s) @
     map (\<lambda>f. PathExists (os_path_join src f))
       (takeWhile (lookup_exists w (fst s) src) fl @ take 1 (dropWhile (lookup_exists w (fst s) src) fl)) \<and>
   filter is_get_prs (snd (snd (files_exist w src fl s))) = filter is_get_prs (snd s)"
  by (induction fl arbitrary: s) (simp_all add: Let_def lookup_exists_def)

lemma filter_repo_space_returns:
  assumes "series_name series = Some n"
  shows "(\<exists>b. fst (filter_repo_space w d series src s) = Inr b) \<and>
         filter is_get_prs (snd (snd (filter_repo_space w d series src s))) =
           filter is_get_prs (snd s)"
proof -
  let ?fl = "fileListExcludingNew w (fst s) series"
  obtain s1 where g: "series_get_file_list w series True s = (Inr ?fl, s1)"
    using series_get_file_list_True [of w series s]
    by (cases "series_get_file_list w series True s") simp
  have s1: "filter is_get_prs (snd s1) = filter is_get_prs (snd s)"
    using series_get_file_list_True [of w series s] by (simp add: g)
  obtain b s2 where f: "files_exist w src ?fl s1 = (b, s2)"
    by (cases "files_exist w src ?fl s1")
  have s2: "filter is_get_prs (snd s2) = filter is_get_prs (snd s)"
    using files_exist_eq [of w src ?fl s1] by (simp add: f s1)
  show ?thesis
    by (auto simp: filter_repo_space_def assms name_matches_Some g f s1 s2)
qed

text \<open>
  C7. With a name given, \<open>filter_repo_space\<close> tests the exclude patterns first: if
  any of them matches the name the series is rejected, whatever the include patterns
  say. Otherwise, if an include pattern matches, the series is accepted at once: the
  state comes back unchanged, so no patch was fetched and no path looked up, and the
  answer does not depend on what exists under the source directory. The matcher is
  Python's \<open>re.search\<close> with \<open>re.IGNORECASE\<close>, a parameter here.
\<close>

theorem exclude_before_include:
  assumes "series_name series = Some n"
  shows "((\<exists>p\<in>set (sd_exclude d). re_search_ic w p n) \<longrightarrow>
            filter_repo_space w d series src s = (Inr False, s)) \<and>
         (\<not> (\<exists>p\<in>set (sd_exclude d). re_search_ic w p n) \<and>
          (\<exists>p\<in>set (sd_include d). re_search_ic w p n) \<longrightarrow>
            filter_repo_space w d series src s = (Inr True, s))"
  by (simp add: filter_repo_space_def assms name_matches_Some)

theorem exclude_before_include_witness:
  "series_name rfc_series = Some ''RFC: BlueZ feature'' \<and>
   re_search_ic bare_env ''^RFC'' ''RFC: BlueZ feature'' \<and>
   re_search_ic bare_env ''BlueZ'' ''RFC: BlueZ feature'' \<and>
   filter_repo_space bare_env rfc_details rfc_series ''/no/such/tree'' ((), []) =
     (Inr False, (), []) \<and>
   series_name demo_series = Some ''BlueZ: fix'' \<and>
   \<not> re_search_ic bare_env ''^RFC'' ''BlueZ: fix'' \<and>
   re_search_ic bare_env ''^BlueZ'' ''BlueZ: fix'' \<and>
   filter_repo_space bare_env demo_details demo_series ''/no/such/tree'' ((), []) =
     (Inr True, (), [])"
proof -
  let ?s = "((), []) :: unit state"
  have n: "series_name rfc_series = Some ''RFC: BlueZ feature''"
    "series_name demo_series = Some ''BlueZ: fix''"
    by code_simp+
  have m: "re_search_ic bare_env ''^RFC'' ''RFC: BlueZ feature''"
    "re_search_ic bare_env ''BlueZ'' ''RFC: BlueZ feature''"
    "\<not> re_search_ic bare_env ''^RFC'' ''BlueZ: fix''"
    "re_search_ic bare_env ''^BlueZ'' ''BlueZ: fix''"
    by code_simp+
  have d: "sd_exclude rfc_details = [''^RFC'']" "sd_include rfc_details = [''BlueZ'']"
    "sd_exclude demo_details = [''^RFC'']" "sd_include demo_details = [''^BlueZ'']"
    by code_simp+
  from exclude_before_include [OF n(1), of rfc_details bare_env "''/no/such/tree''" ?s] m d
  have "filter_repo_space bare_env rfc_details rfc_series ''/no/such/tree'' ?s = (Inr False, ?s)"
    by simp
  moreover
  from exclude_before_include [OF n(2), of demo_details bare_env "''/no/such/tree''" ?s] m d
  have "filter_repo_space bare_env demo_details demo_series ''/no/such/tree'' ?s = (Inr True, ?s)"
    by simp
  ultimately show ?thesis
    using n m by simp
qed

text \<open>
  What \<open>filter_repo_space\<close> computes when neither the exclude nor the include loop
  finds a match: it decides on the file list of the series without its new files. An
  empty list rejects; otherwise the series is accepted exactly when the lookup of
  every path of the list succeeds. The paths are looked up in order, up to and
  including the first missing one.
\<close>

theorem file_evidence_decides:
  assumes "name_matches w (sd_exclude d) (series_name series) = Inr False"
    and "name_matches w (sd_include d) (series_name series) = Inr False"
  shows "fst (filter_repo_space w d series src s) =
           Inr (fileListExcludingNew w (fst s) series \<noteq> [] \<and>
                (\<forall>f\<in>set (fileListExcludingNew w (fst s) series). lookup_exists w (fst s) src f)) \<and>
         filter is_path_check (snd (snd (filter_repo_space w d series src s))) =
           filter is_path_check (snd s) @
           map (\<lambda>f. PathExists (os_path_join src f))
             (takeWhile (lookup_exists w (fst s) src) (fileListExcludingNew w (fst s) series) @
              take 1 (dropWhile (lookup_exists w (fst s) src) (fileListExcludingNew w (fst s) series)))"
proof -
  let ?fl = "fileListExcludingNew w (fst s) series"
  obtain s1 where g: "series_get_file_list w series True s = (Inr ?fl, s1)"
    using series_get_file_list_True [of w series s]
    by (cases "series_get_file_list w series True s") simp
  have s1: "fst s1 = fst s" "filter is_path_check (snd s1) = filter is_path_check (snd s)"
    using series_get_file_list_True [of w series s] by (simp_all add: g)
  show ?thesis
  proof (cases "?fl = []")
    case True
    then show ?thesis
      by (simp add: filter_repo_space_def assms g s1)
  next
    case False
    obtain b s2 where f: "files_exist w src ?fl s1 = (b, s2)"
      by (cases "files_exist w src ?fl s1")
    from files_exist_eq [of w src ?fl s1] f s1
    have b: "b = (\<forall>f\<in>set ?fl. lookup_exists w (fst s) src f)"
      and t: "filter is_path_check (snd s2) =
              filter is_path_check (snd s) @
              map (\<lambda>f. PathExists (os_path_join src f))
               (takeWhile (lookup_exists w (fst s) src) ?fl @ take 1 (dropWhile (lookup_exists w (fst s) src) ?fl))"
      by simp_all
    show ?thesis
      using False by (simp add: filter_repo_space_def assms g f b t)
  qed
qed

theorem file_evidence_decides_witness:
  "name_matches demo_env (sd_exclude demo_details) (series_name misc_series) = Inr False \<and>
   name_matches demo_env (sd_include demo_details) (series_name misc_series) = Inr False \<and>
   fileListExcludingNew demo_env () misc_series = [''Makefile'', ''Makefile'', ''Makefile''] \<and>
   lookup_exists demo_env () ''src'' ''Makefile'' \<and>
   fst (filter_repo_space demo_env demo_details misc_series ''src'' ((), [])) = Inr True \<and>
   \<not> lookup_exists bare_env () ''src'' ''Makefile'' \<and>
   fst (filter_repo_space bare_env demo_details misc_series ''src'' ((), [])) = Inr False \<and>
   filter is_path_check
     (snd (snd (filter_repo_space bare_env demo_details misc_series ''src'' ((), [])))) =
     [PathExists ''src/Makefile'']"
proof -
  let ?s = "((), []) :: unit state"
  have x: "name_matches demo_env (sd_exclude demo_details) (series_name misc_series) = Inr False"
    "name_matches bare_env (sd_exclude demo_details) (series_name misc_series) = Inr False"
    by code_simp+
  have i: "name_matches demo_env (sd_include demo_details) (series_name misc_series) = Inr False"
    "name_matches bare_env (sd_include demo_details) (series_name misc_series) = Inr False"
    by code_simp+
  have f: "fileListExcludingNew demo_env (fst ?s) misc_series = [''Makefile'', ''Makefile'', ''Makefile'']"
    "fileListExcludingNew bare_env (fst ?s) misc_series = [''Makefile'', ''Makefile'', ''Makefile'']"
    by code_simp+
  have t: "lookup_exists demo_env (fst ?s) ''src'' ''Makefile''"
    "\<not> lookup_exists bare_env (fst ?s) ''src'' ''Makefile''"
    "os_path_join ''src'' ''Makefile'' = ''src/Makefile''"
    by code_simp+
  from file_evidence_decides [OF x(1) i(1), of "''src''" ?s] f t
  have "fst (filter_repo_space demo_env demo_details misc_series ''src'' ?s) = Inr True"
    by simp
  moreover from file_evidence_decides [OF x(2) i(2), of "''src''" ?s] f t
  have "fst (filter_repo_space bare_env demo_details misc_series ''src'' ?s) = Inr False"
    and "filter is_path_check
       (snd (snd (filter_repo_space bare_env demo_details misc_series ''src'' ?s))) =
       [PathExists ''src/Makefile'']"
    by simp_all
  ultimately show ?thesis
    using x i f t by simp
qed

text \<open>
  For a path that stays inside the root the lookup is the one the specification
  means, so on a file list of such paths the series is accepted exactly when the
  list is not empty and every path exists under the source-tree root.
\<close>

lemma stays_inside_join:
  "stays_inside f \<Longrightarrow> os_path_join root f = under_root root f"
  by (simp add: stays_inside_def os_path_join_def under_root_def)

lemma file_evidence_inside_root:
  assumes "name_matches w (sd_exclude d) (series_name series) = Inr False"
    and "name_matches w (sd_include d) (series_name series) = Inr False"
    and "\<forall>f\<in>set (fileListExcludingNew w (fst s) series). stays_inside f"
  shows "fst (filter_repo_space w d series src s) =
           Inr (fileListExcludingNew w (fst s) series \<noteq> [] \<and>
                (\<forall>f\<in>set (fileListExcludingNew w (fst s) series).
                   exists_under_root w (fst s) src f))"
proof -
  have "lookup_exists w (fst s) src f = exists_under_root w (fst s) src f"
    if "f \<in> set (fileListExcludingNew w (fst s) series)" for f
    using assms(3) that
    by (simp add: lookup_exists_def exists_under_root_def stays_inside_join)
  then show ?thesis
    using file_evidence_decides [OF assms(1,2), of src s] by auto
qed

text \<open>
  C8. The claim holds on file lists whose paths stay inside the root (above), but
  the code departs from it, and from its own comment (file exist in source tree) and
  message (files exist in the source tree), on an entry that starts with \<open>/\<close>:
  \<open>os.path.join\<close> then drops the source directory. Here the only file that
  exists is \<open>/etc/hostname\<close>, the source directory does not exist, the series
  names neither an excluded nor an included subject, its diff has the marker
  \<open>--- a//etc/hostname\<close>, and the series is accepted.
\<close>

theorem absolute_entry_accepted_outside_root:
  "name_matches outside_env (sd_exclude demo_details) (series_name misc_series) = Inr False \<and>
   name_matches outside_env (sd_include demo_details) (series_name misc_series) = Inr False \<and>
   fileListExcludingNew outside_env () misc_series =
     [''/etc/hostname'', ''/etc/hostname'', ''/etc/hostname''] \<and>
   \<not> exists_under_root outside_env () ''/no/such/tree'' ''/etc/hostname'' \<and>
   \<not> path_exists outside_env () (under_root ''/no/such/tree'' ''/etc/hostname'') \<and>
   os_path_join ''/no/such/tree'' ''/etc/hostname'' = ''/etc/hostname'' \<and>
   fst (filter_repo_space outside_env demo_details misc_series ''/no/such/tree'' ((), [])) =
     Inr True"
  by code_simp

subsection \<open>SeriesApplier\<close>

lemma snd_save_patch [simp]:
  "snd (save_patch w sd p s) =
     snd s @ [GetPatchMbox (patch_id p),
              WriteFile (patch_file sd p) (get_patch_mbox w (fst s) (patch_id p))]"
  by (simp add: save_patch_def Let_def)

lemma apply_patches_append:
  "apply_patches ci w sd ac pre s = ((True, c), s1) \<Longrightarrow>
   apply_patches ci w sd ac (pre @ rest) s = apply_patches ci w sd ac rest s1"
proof (induction pre arbitrary: s)
  case Nil
  then show ?case by simp
next
  case (Cons q pre)
  let ?s3 = "call w (GitAm (patch_file sd q)) (save_patch w sd q s)"
  from Cons.prems have ok: "\<not> git_am w (fst (save_patch w sd q s)) (patch_file sd q)"
    by (simp add: Let_def split: if_splits)
  show ?case
  proof (cases "dry_run ci \<or> ac")
    case True
    let ?s4 = "observe (LogInfo ''Skip submitting the result to PW: Success'') ?s3"
    from Cons.prems ok True have "apply_patches ci w sd ac pre ?s4 = ((True, c), s1)"
      by (simp add: Let_def)
    from Cons.IH [OF this] ok True show ?thesis
      by (simp add: Let_def)
  next
    case False
    let ?s4 = "call w (PostCheck q ''pre-ci_am'' 1 ''Success'') ?s3"
    from Cons.prems ok False have "apply_patches ci w sd ac pre ?s4 = ((True, c), s1)"
      by (simp add: Let_def)
    from Cons.IH [OF this] ok False show ?thesis
      by (simp add: Let_def)
  qed
qed

lemma apply_patches_ok_trace:
  "apply_patches ci w sd False pre s = ((True, c), s1) \<Longrightarrow> \<not> dry_run ci \<Longrightarrow>
   filter is_post_check (snd s1) = filter is_post_check (snd s) @ map success_report pre \<and>
   filter is_git_am (snd s1) = filter is_git_am (snd s) @ map (\<lambda>q. GitAm (patch_file sd q)) pre \<and>
   filter is_mbox_fetch (snd s1) =
     filter is_mbox_fetch (snd s) @ map (\<lambda>q. GetPatchMbox (patch_id q)) pre"
proof (induction pre arbitrary: s)
  case Nil
  then show ?case by simp
next
  case (Cons q pre)
  let ?s2 = "save_patch w sd q s"
  let ?s3 = "call w (GitAm (patch_file sd q)) ?s2"
  let ?s4 = "call w (success_report q) ?s3"
  from Cons.prems have ok: "\<not> git_am w (fst ?s2) (patch_file sd q)"
    by (simp add: Let_def split: if_splits)
  with Cons.prems have "apply_patches ci w sd False pre ?s4 = ((True, c), s1)"
    by (simp add: Let_def success_report_def)
  from Cons.IH [OF this Cons.prems(2)] show ?case
    by (simp add: success_report_def)
qed

lemma prepare_branch_no_reports:
  "filter is_post_check (snd (snd (prepare_branch ci w series s))) = filter is_post_check (snd s) \<and>
   filter is_git_am (snd (snd (prepare_branch ci w series s))) = filter is_git_am (snd s) \<and>
   filter is_mbox_fetch (snd (snd (prepare_branch ci w series s))) = filter is_mbox_fetch (snd s)"
  by (simp add: prepare_branch_def Let_def split: list.splits)

lemma notify_submitter_sends:
  assumes "\<not> dry_run ci" and "patches series = p1 # ps"
  shows "notify_submitter ci w series False out s =
           (Inr False, fst (snd (notify_submitter ci w series False out s)),
            snd s @
            [LogInfo ''PRE-CI AM failed. Notify the submitter'',
             SetReceivers (get_receivers (email ci) (submitter_email series)),
             Compose (''RE: '' @ py_str_opt (series_name series)) (EMAIL_MESSAGE out)
               ([(''In-Reply-To'', msgid p1), (''References'', msgid p1)] @
                (if is_maintainers_only (email ci) then []
                 else [(''Reply-To'', default_to (email ci))])),
             LogInfo ''Sending Email...'',
             Send])"
  using assms by (simp add: notify_submitter_def send_email_def Let_def call_def observe_def)

text \<open>
  C5. Outside a dry run and for a series not checked before: if the patches \<open>pre\<close>
  apply and the next patch \<open>p\<close> is rejected, \<open>series_check_patches\<close> returns
  \<open>False\<close>; the verdicts posted over the whole call are success (1) for each patch
  of \<open>pre\<close>, in order, then fail (3) for \<open>p\<close>, all under \<open>pre-ci_am\<close>; only the
  patches up to \<open>p\<close> were fetched and handed to \<open>git am\<close>; and the rejected
  \<open>git am\<close> is followed at once by the abort, then by the fail verdict, then by
  the notification.
\<close>

theorem first_failure_reports:
  assumes "\<not> dry_run ci"
    and "prepare_branch ci w series s = (Inr (Some False), s1)"
    and "patches series = pre @ p # post"
    and "apply_patches ci w (series_dir ci series) False pre s1 = ((True, c), s2)"
    and "git_am w (fst (save_patch w (series_dir ci series) p s2)) (patch_file (series_dir ci series) p)"
  shows "\<exists>out tail.
           fst (series_check_patches ci w series s) = Inr False \<and>
           filter is_post_check (snd (snd (series_check_patches ci w series s))) =
             filter is_post_check (snd s) @ map success_report pre @
             [PostCheck p ''pre-ci_am'' 3 out] \<and>
           filter is_git_am (snd (snd (series_check_patches ci w series s))) =
             filter is_git_am (snd s) @
             map (\<lambda>q. GitAm (patch_file (series_dir ci series) q)) (pre @ [p]) \<and>
           filter is_mbox_fetch (snd (snd (series_check_patches ci w series s))) =
             filter is_mbox_fetch (snd s) @ map (\<lambda>q. GetPatchMbox (patch_id q)) (pre @ [p]) \<and>
           snd (snd (series_check_patches ci w series s)) =
             snd (save_patch w (series_dir ci series) p s2) @
             [GitAm (patch_file (series_dir ci series) p), GitAmAbort,
              PostCheck p ''pre-ci_am'' 3 out,
              LogInfo ''PRE-CI AM failed. Notify the submitter''] @ tail"
proof -
  let ?sd = "series_dir ci series"
  let ?s3 = "call w (GitAm (patch_file ?sd p)) (save_patch w ?sd p s2)"
  let ?out = "git_stderr w (fst ?s3)"
  let ?s5 = "call w (PostCheck p ''pre-ci_am'' 3 ?out) (call w GitAmAbort ?s3)"
  obtain p1 ps where ps: "patches series = p1 # ps"
    using assms(3) by (cases pre) simp_all
  let ?tail = "[SetReceivers (get_receivers (email ci) (submitter_email series)),
             Compose (''RE: '' @ py_str_opt (series_name series)) (EMAIL_MESSAGE ?out)
               ([(''In-Reply-To'', msgid p1), (''References'', msgid p1)] @
                (if is_maintainers_only (email ci) then []
                 else [(''Reply-To'', default_to (email ci))])),
             LogInfo ''Sending Email...'',
             Send]"
  have "apply_patches ci w ?sd False (pre @ p # post) s1 = apply_patches ci w ?sd False (p # post) s2"
    using assms(4) by (rule apply_patches_append)
  also have "\<dots> = ((False, ?out), ?s5)"
    using assms(1,5) by (simp add: Let_def)
  finally have loop: "apply_patches ci w ?sd False (patches series) s1 = ((False, ?out), ?s5)"
    by (simp add: assms(3))
  have run: "series_check_patches ci w series s = notify_submitter ci w series False ?out ?s5"
    by (simp add: series_check_patches_def assms(2) loop)
  note n = notify_submitter_sends [OF assms(1) ps, of w ?out ?s5]
  have res: "fst (series_check_patches ci w series s) = Inr False"
    unfolding run by (subst n) simp
  have tr: "snd (snd (series_check_patches ci w series s)) =
      snd ?s5 @ LogInfo ''PRE-CI AM failed. Notify the submitter'' # ?tail"
    unfolding run by (subst n) simp
  have s1: "filter is_post_check (snd s1) = filter is_post_check (snd s)"
    "filter is_git_am (snd s1) = filter is_git_am (snd s)"
    "filter is_mbox_fetch (snd s1) = filter is_mbox_fetch (snd s)"
    using prepare_branch_no_reports [of ci w series s] by (simp_all add: assms(2))
  note ok = apply_patches_ok_trace [OF assms(4,1)]
  have pc: "filter is_post_check (snd (snd (series_check_patches ci w series s))) =
             filter is_post_check (snd s) @ map success_report pre @
             [PostCheck p ''pre-ci_am'' 3 ?out]"
    using ok s1 by (simp add: tr)
  have am: "filter is_git_am (snd (snd (series_check_patches ci w series s))) =
             filter is_git_am (snd s) @ map (\<lambda>q. GitAm (patch_file ?sd q)) (pre @ [p])"
    using ok s1 by (simp add: tr)
  have mb: "filter is_mbox_fetch (snd (snd (series_check_patches ci w series s))) =
             filter is_mbox_fetch (snd s) @ map (\<lambda>q. GetPatchMbox (patch_id q)) (pre @ [p])"
    using ok s1 by (simp add: tr)
  have sq: "snd (snd (series_check_patches ci w series s)) =
             snd (save_patch w ?sd p s2) @
             [GitAm (patch_file ?sd p), GitAmAbort, PostCheck p ''pre-ci_am'' 3 ?out,
              LogInfo ''PRE-CI AM failed. Notify the submitter''] @ ?tail"
    by (simp add: tr)
  from res pc am mb sq show ?thesis
    by blast
qed

theorem first_failure_reports_witness:
  "\<not> dry_run demo_ci \<and>
   fst (prepare_branch demo_ci demo_env demo_series ((), [])) = Inr (Some False) \<and>
   patches demo_series = [demo_patches ! 0] @ demo_patches ! 1 # [demo_patches ! 2] \<and>
   fst (apply_patches demo_ci demo_env (series_dir demo_ci demo_series) False [demo_patches ! 0]
          (snd (prepare_branch demo_ci demo_env demo_series ((), [])))) = (True, []) \<and>
   git_am demo_env () (patch_file (series_dir demo_ci demo_series) (demo_patches ! 1)) \<and>
   fst (series_check_patches demo_ci demo_env demo_series ((), [])) = Inr False \<and>
   filter is_post_check (snd (snd (series_check_patches demo_ci demo_env demo_series ((), [])))) =
     [PostCheck (demo_patches ! 0) ''pre-ci_am'' 1 ''Success'',
      PostCheck (demo_patches ! 1) ''pre-ci_am'' 3 ''error: patch failed''] \<and>
   filter is_git_am (snd (snd (series_check_patches demo_ci demo_env demo_series ((), [])))) =
     [GitAm ''/tmp/ci/7/1.patch'', GitAm ''/tmp/ci/7/2.patch'']"
proof -
  let ?s = "((), []) :: unit state"
  let ?sd = "series_dir demo_ci demo_series"
  let ?s1 = "snd (prepare_branch demo_ci demo_env demo_series ?s)"
  let ?s2 = "snd (apply_patches demo_ci demo_env ?sd False [demo_patches ! 0] ?s1)"
  let ?tr = "snd (snd (series_check_patches demo_ci demo_env demo_series ?s))"
  have d: "\<not> dry_run demo_ci"
    by code_simp
  have a: "fst (prepare_branch demo_ci demo_env demo_series ?s) = Inr (Some False)"
    by code_simp
  have l: "patches demo_series = [demo_patches ! 0] @ demo_patches ! 1 # [demo_patches ! 2]"
    by code_simp
  have b: "fst (apply_patches demo_ci demo_env ?sd False [demo_patches ! 0] ?s1) = (True, [])"
    by code_simp
  have g: "git_am demo_env (fst (save_patch demo_env ?sd (demo_patches ! 1) ?s2))
             (patch_file ?sd (demo_patches ! 1))"
    by code_simp
  have g': "git_am demo_env () (patch_file ?sd (demo_patches ! 1))"
    by code_simp
  have p: "patch_file ?sd (demo_patches ! 0) = ''/tmp/ci/7/1.patch''"
    "patch_file ?sd (demo_patches ! Suc 0) = ''/tmp/ci/7/2.patch''"
    by code_simp+
  have o: "snd (fst (apply_patches demo_ci demo_env ?sd False (patches demo_series) ?s1)) =
             ''error: patch failed''"
    by code_simp
  from first_failure_reports [OF d pair_fst [OF a] l pair_fst [OF b] g]
  obtain out tail where r: "fst (series_check_patches demo_ci demo_env demo_series ?s) = Inr False"
    and pc: "filter is_post_check ?tr =
        filter is_post_check (snd ?s) @ map success_report [demo_patches ! 0] @
        [PostCheck (demo_patches ! 1) ''pre-ci_am'' 3 out]"
    and am: "filter is_git_am ?tr =
        filter is_git_am (snd ?s) @
        map (\<lambda>q. GitAm (patch_file ?sd q)) ([demo_patches ! 0] @ [demo_patches ! 1])"
    by blast
  have e: "filter is_post_check ?tr ! 1 = PostCheck (demo_patches ! 1) ''pre-ci_am'' 3 ''error: patch failed''"
    by code_simp
  from pc e have out: "out = ''error: patch failed''"
    by simp
  from pc have pcf: "filter is_post_check ?tr =
     [PostCheck (demo_patches ! 0) ''pre-ci_am'' 1 ''Success'',
      PostCheck (demo_patches ! 1) ''pre-ci_am'' 3 ''error: patch failed'']"
    by (simp add: out success_report_def)
  from am have amf: "filter is_git_am ?tr =
     [GitAm ''/tmp/ci/7/1.patch'', GitAm ''/tmp/ci/7/2.patch'']"
    by (simp add: p)
  show ?thesis
    by (intro conjI d a l b g' r pcf amf)
qed

lemma apply_patches_quiet:
  "filter is_push (snd (snd (apply_patches ci w sd ac ps s))) = filter is_push (snd s) \<and>
   filter is_create_pr (snd (snd (apply_patches ci w sd ac ps s))) = filter is_create_pr (snd s) \<and>
   filter is_email (snd (snd (apply_patches ci w sd ac ps s))) = filter is_email (snd s) \<and>
   filter is_get_prs (snd (snd (apply_patches ci w sd ac ps s))) = filter is_get_prs (snd s)"
  by (induction ps arbitrary: s ac) (simp_all add: Let_def)

lemma prepare_branch_quiet:
  "filter is_push (snd (snd (prepare_branch ci w series s))) = filter is_push (snd s) \<and>
   filter is_create_pr (snd (snd (prepare_branch ci w series s))) = filter is_create_pr (snd s) \<and>
   filter is_email (snd (snd (prepare_branch ci w series s))) = filter is_email (snd s) \<and>
   filter is_get_prs (snd (snd (prepare_branch ci w series s))) = filter is_get_prs (snd s)"
  by (simp add: prepare_branch_def Let_def split: list.splits)

lemma prepare_branch_patches:
  "prepare_branch ci w series s = (Inr (Some ac), s1) \<Longrightarrow> patches series \<noteq> []"
  by (auto simp: prepare_branch_def Let_def split: if_splits list.splits)

lemma create_pull_request_trace:
  assumes "patches series \<noteq> []"
  shows "filter is_push (snd (snd (create_pull_request ci w series s))) =
           filter is_push (snd s) @
           (if disable_pr ci then [] else [GitPush (py_str_int (series_id series))]) \<and>
         (\<exists>body. filter is_create_pr (snd (snd (create_pull_request ci w series s))) =
           filter is_create_pr (snd s) @
           (if disable_pr ci \<or> git_push w (fst s) (py_str_int (series_id series)) then []
            else [CreatePr (''[PW_SID:'' @ py_str_int (series_id series) @ ''] '' @
                            py_str_opt (series_name series))
                    body (branch ci) (py_str_int (series_id series))]))"
  using assms by (cases "patches series") (simp_all add: create_pull_request_def Let_def)

lemma apply_patches_silent:
  "dry_run ci \<or> ac \<Longrightarrow>
   filter is_post_check (snd (snd (apply_patches ci w sd ac ps s))) = filter is_post_check (snd s)"
  by (induction ps arbitrary: s) (simp_all add: Let_def)

lemma create_pull_request_no_reports:
  "filter is_post_check (snd (snd (create_pull_request ci w series s))) =
     filter is_post_check (snd s)"
  by (cases "patches series") (simp_all add: create_pull_request_def Let_def)

text \<open>
  C1 (as amended). For a series whose branch is prepared and whose patches all
  apply, the branch is pushed exactly when \<open>disable_pr\<close> is unset, and the pull
  request is requested exactly when, in addition, the push succeeds: the dry-run
  flag plays no part in either. What a dry run (like a series checked before)
  suppresses on this path is the verdicts: none is posted to the tracker then, and
  one success verdict per patch, in order, otherwise.
\<close>

theorem pull_request_gated_by_disable_pr:
  assumes "prepare_branch ci w series s = (Inr (Some ac), s1)"
    and "apply_patches ci w (series_dir ci series) ac (patches series) s1 = ((True, c), s2)"
  shows "filter is_push (snd (snd (series_check_patches ci w series s))) =
           filter is_push (snd s) @
           (if disable_pr ci then [] else [GitPush (py_str_int (series_id series))]) \<and>
         (\<exists>body. filter is_create_pr (snd (snd (series_check_patches ci w series s))) =
           filter is_create_pr (snd s) @
           (if disable_pr ci \<or> git_push w (fst s2) (py_str_int (series_id series)) then []
            else [CreatePr (''[PW_SID:'' @ py_str_int (series_id series) @ ''] '' @
                            py_str_opt (series_name series))
                    body (branch ci) (py_str_int (series_id series))])) \<and>
         filter is_post_check (snd (snd (series_check_patches ci w series s))) =
           filter is_post_check (snd s) @
           (if dry_run ci \<or> ac then [] else map success_report (patches series))"
proof -
  have run: "series_check_patches ci w series s = create_pull_request ci w series s2"
    by (simp add: series_check_patches_def assms)
  have s1: "filter is_push (snd s1) = filter is_push (snd s)"
    "filter is_create_pr (snd s1) = filter is_create_pr (snd s)"
    using prepare_branch_quiet [of ci w series s] by (simp_all add: assms(1))
  have p1: "filter is_post_check (snd s1) = filter is_post_check (snd s)"
    using prepare_branch_no_reports [of ci w series s] by (simp add: assms(1))
  have s2: "filter is_push (snd s2) = filter is_push (snd s)"
    "filter is_create_pr (snd s2) = filter is_create_pr (snd s)"
    using apply_patches_quiet [of ci w "series_dir ci series" ac "patches series" s1]
    by (simp_all add: assms(2) s1)
  have p2: "filter is_post_check (snd s2) =
           filter is_post_check (snd s) @
           (if dry_run ci \<or> ac then [] else map success_report (patches series))"
  proof (cases "dry_run ci \<or> ac")
    case True
    from apply_patches_silent [OF True, of w "series_dir ci series" "patches series" s1]
    show ?thesis
      using True by (simp add: assms(2) p1)
  next
    case False
    then have ac: "ac = False" and d: "\<not> dry_run ci"
      by simp_all
    from apply_patches_ok_trace [OF assms(2) [unfolded ac] d] show ?thesis
      using False by (simp add: p1)
  qed
  have posts: "filter is_post_check (snd (snd (series_check_patches ci w series s))) =
           filter is_post_check (snd s) @
           (if dry_run ci \<or> ac then [] else map success_report (patches series))"
    unfolding run by (simp only: create_pull_request_no_reports p2)
  from create_pull_request_trace [OF prepare_branch_patches [OF assms(1)], of ci w s2]
  have "filter is_push (snd (snd (series_check_patches ci w series s))) =
           filter is_push (snd s) @
           (if disable_pr ci then [] else [GitPush (py_str_int (series_id series))]) \<and>
         (\<exists>body. filter is_create_pr (snd (snd (series_check_patches ci w series s))) =
           filter is_create_pr (snd s) @
           (if disable_pr ci \<or> git_push w (fst s2) (py_str_int (series_id series)) then []
            else [CreatePr (''[PW_SID:'' @ py_str_int (series_id series) @ ''] '' @
                            py_str_opt (series_name series))
                    body (branch ci) (py_str_int (series_id series))]))"
    unfolding run by (simp only: s2)
  with posts show ?thesis
    by blast
qed

theorem pull_request_gated_by_disable_pr_witness:
  "dry_run dry_ci \<and>
   fst (prepare_branch dry_ci clean_env demo_series ((), [])) = Inr (Some False) \<and>
   fst (apply_patches dry_ci clean_env (series_dir dry_ci demo_series) False
          (patches demo_series) (snd (prepare_branch dry_ci clean_env demo_series ((), []))))
     = (True, []) \<and>
   filter is_push (snd (snd (series_check_patches dry_ci clean_env demo_series ((), [])))) =
     [GitPush ''7''] \<and>
   filter is_post_check (snd (snd (series_check_patches dry_ci clean_env demo_series ((), [])))) =
     [] \<and>
   filter is_push
     (snd (snd (series_check_patches (dry_ci\<lparr>disable_pr := True\<rparr>) clean_env demo_series ((), []))))
     = [] \<and>
   filter is_post_check (snd (snd (series_check_patches demo_ci clean_env demo_series ((), [])))) =
     map success_report demo_patches"
proof -
  let ?s = "((), []) :: unit state"
  let ?off = "dry_ci\<lparr>disable_pr := True\<rparr>"
  have d: "dry_run dry_ci"
    by code_simp
  have a: "fst (prepare_branch dry_ci clean_env demo_series ?s) = Inr (Some False)"
    by code_simp
  have b: "fst (apply_patches dry_ci clean_env (series_dir dry_ci demo_series) False
          (patches demo_series) (snd (prepare_branch dry_ci clean_env demo_series ?s))) = (True, [])"
    by code_simp
  have a': "fst (prepare_branch ?off clean_env demo_series ?s) = Inr (Some False)"
    by code_simp
  have b': "fst (apply_patches ?off clean_env (series_dir ?off demo_series) False
          (patches demo_series) (snd (prepare_branch ?off clean_env demo_series ?s))) = (True, [])"
    by code_simp
  have a'': "fst (prepare_branch demo_ci clean_env demo_series ?s) = Inr (Some False)"
    by code_simp
  have b'': "fst (apply_patches demo_ci clean_env (series_dir demo_ci demo_series) False
          (patches demo_series) (snd (prepare_branch demo_ci clean_env demo_series ?s))) = (True, [])"
    by code_simp
  have c: "\<not> disable_pr dry_ci" "disable_pr ?off" "py_str_int (series_id demo_series) = ''7''"
    "\<not> dry_run demo_ci" "patches demo_series = demo_patches"
    by code_simp+
  note t = pull_request_gated_by_disable_pr [OF pair_fst [OF a] pair_fst [OF b]]
  note t' = pull_request_gated_by_disable_pr [OF pair_fst [OF a'] pair_fst [OF b']]
  note t'' = pull_request_gated_by_disable_pr [OF pair_fst [OF a''] pair_fst [OF b'']]
  from t c have push: "filter is_push (snd (snd (series_check_patches dry_ci clean_env demo_series ?s))) =
     [GitPush ''7'']"
    by simp
  from t d have quiet: "filter is_post_check (snd (snd (series_check_patches dry_ci clean_env demo_series ?s))) = []"
    by simp
  from t' c have off: "filter is_push (snd (snd (series_check_patches ?off clean_env demo_series ?s))) = []"
    by simp
  from t'' c have posts: "filter is_post_check (snd (snd (series_check_patches demo_ci clean_env demo_series ?s))) =
     map success_report demo_patches"
    by simp
  show ?thesis
    by (intro conjI d a b push quiet off posts)
qed

text \<open>
  C1 as stated fails: in a dry run with pull requests enabled and three patches that
  apply, the branch is pushed and the pull request is requested.
\<close>

theorem pull_request_in_dry_run_counterexample:
  "dry_run dry_ci \<and> \<not> disable_pr dry_ci \<and>
   fst (prepare_branch dry_ci clean_env demo_series ((), [])) = Inr (Some False) \<and>
   fst (apply_patches dry_ci clean_env (series_dir dry_ci demo_series) False
          (patches demo_series) (snd (prepare_branch dry_ci clean_env demo_series ((), []))))
     = (True, []) \<and>
   filter is_push (snd (snd (series_check_patches dry_ci clean_env demo_series ((), [])))) =
     [GitPush ''7''] \<and>
   filter is_create_pr (snd (snd (series_check_patches dry_ci clean_env demo_series ((), [])))) =
     [CreatePr ''[PW_SID:7] BlueZ: fix'' ''body'' ''master'' ''7'']"
  by code_simp

lemma send_email_dry_run:
  assumes "dry_run ci" and "patches series = p1 # ps"
  shows "fst (send_email ci w series out s) = Inr () \<and>
         snd (snd (send_email ci w series out s)) =
           snd s @
           [SetReceivers (get_receivers (email ci) (submitter_email series)),
            Compose (''RE: '' @ py_str_opt (series_name series)) (EMAIL_MESSAGE out)
              ([(''In-Reply-To'', msgid p1), (''References'', msgid p1)] @
               (if is_maintainers_only (email ci) then []
                else [(''Reply-To'', default_to (email ci))])),
            LogInfo ''Dry-Run: Skip sending email'']"
  using assms by (simp add: send_email_def Let_def)

text \<open>
  C2 (as amended). In a dry run, when some patch of a prepared series is rejected,
  \<open>series_check_patches\<close> logs that it skips the email and returns \<open>False\<close>
  without calling \<open>send_email\<close>: no recipients are set, nothing is composed,
  nothing is sent. \<open>send_email\<close> itself, were it called in a dry run, would set the
  recipients and compose the message, and skip only the transmission.
\<close>

theorem dry_run_failure_sends_nothing:
  assumes "dry_run ci"
    and "prepare_branch ci w series s = (Inr (Some ac), s1)"
    and "apply_patches ci w (series_dir ci series) ac (patches series) s1 = ((False, out), s2)"
  shows "series_check_patches ci w series s =
           (Inr False,
            observe (LogInfo ''Skip sending email'')
              (observe (LogInfo ''PRE-CI AM failed. Notify the submitter'') s2)) \<and>
         filter is_email (snd (snd (series_check_patches ci w series s))) =
           filter is_email (snd s) \<and>
         fst (send_email ci w series out s2) = Inr () \<and>
         snd (snd (send_email ci w series out s2)) =
           snd s2 @
           [SetReceivers (get_receivers (email ci) (submitter_email series)),
            Compose (''RE: '' @ py_str_opt (series_name series)) (EMAIL_MESSAGE out)
              ([(''In-Reply-To'', msgid (hd (patches series))),
                (''References'', msgid (hd (patches series)))] @
               (if is_maintainers_only (email ci) then []
                else [(''Reply-To'', default_to (email ci))])),
            LogInfo ''Dry-Run: Skip sending email'']"
proof -
  have run: "series_check_patches ci w series s =
           (Inr False,
            observe (LogInfo ''Skip sending email'')
              (observe (LogInfo ''PRE-CI AM failed. Notify the submitter'') s2))"
    by (simp add: series_check_patches_def assms notify_submitter_def Let_def)
  have "filter is_email (snd s1) = filter is_email (snd s)"
    using prepare_branch_quiet [of ci w series s] by (simp add: assms(2))
  then have s2: "filter is_email (snd s2) = filter is_email (snd s)"
    using apply_patches_quiet [of ci w "series_dir ci series" ac "patches series" s1]
    by (simp add: assms(3))
  obtain p1 ps where ps: "patches series = p1 # ps"
    using prepare_branch_patches [OF assms(2)] by (cases "patches series") simp_all
  from send_email_dry_run [OF assms(1) ps, of w out s2] show ?thesis
    unfolding run by (simp add: s2 ps)
qed

theorem dry_run_failure_sends_nothing_witness:
  "dry_run dry_ci \<and>
   fst (prepare_branch dry_ci demo_env demo_series ((), [])) = Inr (Some False) \<and>
   fst (apply_patches dry_ci demo_env (series_dir dry_ci demo_series) False
          (patches demo_series) (snd (prepare_branch dry_ci demo_env demo_series ((), []))))
     = (False, ''error: patch failed'') \<and>
   fst (series_check_patches dry_ci demo_env demo_series ((), [])) = Inr False \<and>
   filter is_email (snd (snd (series_check_patches dry_ci demo_env demo_series ((), [])))) = [] \<and>
   filter is_email
     (snd (snd (send_email dry_ci demo_env demo_series ''error: patch failed'' ((), [])))) =
     [SetReceivers [''list@example.org'', ''dev@example.org''],
      Compose ''RE: BlueZ: fix'' (EMAIL_MESSAGE ''error: patch failed'')
        [(''In-Reply-To'', ''<m1>''), (''References'', ''<m1>''),
         (''Reply-To'', ''list@example.org'')]]"
proof -
  let ?s = "((), []) :: unit state"
  have d: "dry_run dry_ci"
    by code_simp
  have a: "fst (prepare_branch dry_ci demo_env demo_series ?s) = Inr (Some False)"
    by code_simp
  have b: "fst (apply_patches dry_ci demo_env (series_dir dry_ci demo_series) False
          (patches demo_series) (snd (prepare_branch dry_ci demo_env demo_series ?s)))
     = (False, ''error: patch failed'')"
    by code_simp
  have e: "filter is_email
     (snd (snd (send_email dry_ci demo_env demo_series ''error: patch failed'' ?s))) =
     [SetReceivers [''list@example.org'', ''dev@example.org''],
      Compose ''RE: BlueZ: fix'' (EMAIL_MESSAGE ''error: patch failed'')
        [(''In-Reply-To'', ''<m1>''), (''References'', ''<m1>''),
         (''Reply-To'', ''list@example.org'')]]"
    by code_simp
  note t = dry_run_failure_sends_nothing [OF d pair_fst [OF a] pair_fst [OF b]]
  from t have r: "fst (series_check_patches dry_ci demo_env demo_series ?s) = Inr False"
    by simp
  from t have "filter is_email (snd (snd (series_check_patches dry_ci demo_env demo_series ?s))) =
      filter is_email (snd ?s)"
    by blast
  then have q: "filter is_email (snd (snd (series_check_patches dry_ci demo_env demo_series ?s))) = []"
    by simp
  show ?thesis
    by (intro conjI d a b r q e)
qed

text \<open>
  C2 as stated fails: in a dry run where the second patch is rejected, the whole run
  of \<open>series_check_patches\<close> makes no call on the mail transport.
\<close>

theorem dry_run_composes_nothing_counterexample:
  "dry_run dry_ci \<and>
   fst (prepare_branch dry_ci demo_env demo_series ((), [])) = Inr (Some False) \<and>
   fst (apply_patches dry_ci demo_env (series_dir dry_ci demo_series) False
          (patches demo_series) (snd (prepare_branch dry_ci demo_env demo_series ((), []))))
     = (False, ''error: patch failed'') \<and>
   filter is_email (snd (snd (series_check_patches dry_ci demo_env demo_series ((), [])))) = []"
  by code_simp

subsection \<open>PRReconciler\<close>

lemma sid_in_series_list_parsed:
  "py_int w sid = Inr n \<Longrightarrow>
   sid_in_series_list w sid ss = Inr (find (\<lambda>x. n = series_id x) ss)"
  by (induction ss) simp_all

lemma cleanup_loop_trace:
  assumes "\<forall>pr\<in>set prs. tag_parses w pr"
  shows "fst (cleanup_loop w ns prs s) = Inr () \<and>
         snd (snd (cleanup_loop w ns prs s)) =
           snd s @ map (\<lambda>pr. ClosePr (number pr)) (filter (is_stale w ns) prs)"
  using assms
proof (induction prs arbitrary: s)
  case Nil
  show ?case by simp
next
  case (Cons pr prs)
  then have ih: "\<And>s. fst (cleanup_loop w ns prs s) = Inr () \<and>
         snd (snd (cleanup_loop w ns prs s)) =
           snd s @ map (\<lambda>pr. ClosePr (number pr)) (filter (is_stale w ns) prs)"
    by simp
  show ?case
  proof (cases "pr_get_sid w (title pr)")
    case None
    then have "\<not> is_stale w ns pr"
      by (simp add: is_stale_def)
    with None show ?thesis
      using ih [of s] by simp
  next
    case (Some sid)
    show ?thesis
    proof (cases "sid = []")
      case True
      with Some have "\<not> is_stale w ns pr"
        by (simp add: is_stale_def)
      with True Some show ?thesis
        using ih [of s] by simp
    next
      case False
      with Cons.prems Some obtain n where n: "py_int w sid = Inr n"
        by (auto simp: tag_parses_def split: sum.splits)
      show ?thesis
      proof (cases "find (\<lambda>x. n = series_id x) ns")
        case None
        then have "n \<notin> series_id ` set ns"
          by (auto simp: find_None_iff)
        with Some False n have "is_stale w ns pr"
          by (simp add: is_stale_def)
        with None show ?thesis
          using ih [of "call w (ClosePr (number pr)) s"] Some False n
          by (simp add: sid_in_series_list_parsed)
      next
        case (Some x)
        then have "n \<in> series_id ` set ns"
          by (auto simp: find_Some_iff)
        with \<open>pr_get_sid w (title pr) = Some sid\<close> False n have "\<not> is_stale w ns pr"
          by (simp add: is_stale_def)
        with Some show ?thesis
          using ih [of s] \<open>pr_get_sid w (title pr) = Some sid\<close> False n
          by (simp add: sid_in_series_list_parsed)
      qed
    qed
  qed
qed

text \<open>
  C6. Provided every tag \<open>pr_get_sid\<close> yields is one \<open>int\<close> accepts,
  \<open>cleanup_pullrequest\<close> fetches the open pull requests once and then closes
  exactly the stale ones, in order: those whose title gives a tag with a number that
  is the id of no series of the list. A pull request whose number is in the list, or
  whose title gives no tag, gets no call at all.
\<close>

theorem reconcile_closes_stale:
  assumes "\<forall>pr\<in>set (get_prs w (fst s) True). tag_parses w pr"
  shows "fst (cleanup_pullrequest w new_series s) = Inr () \<and>
         snd (snd (cleanup_pullrequest w new_series s)) =
           snd s @ GetPrs True #
           map (\<lambda>pr. ClosePr (number pr))
             (filter (is_stale w new_series) (get_prs w (fst s) True))"
  using cleanup_loop_trace [OF assms, of new_series "call w (GetPrs True) s"]
  by (simp add: cleanup_pullrequest_def Let_def)

theorem reconcile_closes_stale_witness:
  "list_all (tag_parses demo_env) (get_prs demo_env () True) \<and>
   filter (is_stale demo_env [pending_ten]) (get_prs demo_env () True) =
     [\<lparr>number = 2, title = ''[PW_SID:99] bar''\<rparr>] \<and>
   cleanup_pullrequest demo_env [pending_ten] ((), []) = (Inr (), (), [GetPrs True, ClosePr 2])"
proof -
  let ?s = "((), []) :: unit state"
  have p: "list_all (tag_parses demo_env) (get_prs demo_env () True)"
    by code_simp
  then have h: "\<forall>pr\<in>set (get_prs demo_env (fst ?s) True). tag_parses demo_env pr"
    by (simp add: list_all_iff)
  have f: "filter (is_stale demo_env [pending_ten]) (get_prs demo_env (fst ?s) True) =
     [\<lparr>number = 2, title = ''[PW_SID:99] bar''\<rparr>]"
    by code_simp
  have w: "fst (snd (cleanup_pullrequest demo_env [pending_ten] ?s)) = ()"
    by simp
  from reconcile_closes_stale [OF h, of "[pending_ten]"] f
  have "fst (cleanup_pullrequest demo_env [pending_ten] ?s) = Inr ()"
    and "snd (snd (cleanup_pullrequest demo_env [pending_ten] ?s)) = [GetPrs True, ClosePr 2]"
    by simp_all
  then have "cleanup_pullrequest demo_env [pending_ten] ?s = (Inr (), (), [GetPrs True, ClosePr 2])"
    by (metis prod.collapse w)
  with p f show ?thesis
    by simp
qed

subsection \<open>The whole run\<close>

lemma send_email_returns:
  assumes "patches series \<noteq> []"
  shows "fst (send_email ci w series out s) = Inr () \<and>
         filter is_get_prs (snd (snd (send_email ci w series out s))) = filter is_get_prs (snd s)"
  using assms by (cases "patches series") (simp_all add: send_email_def Let_def)

lemma notify_submitter_returns:
  assumes "patches series \<noteq> []"
  shows "(\<exists>b. fst (notify_submitter ci w series ac out s) = Inr b) \<and>
         filter is_get_prs (snd (snd (notify_submitter ci w series ac out s))) =
           filter is_get_prs (snd s)"
proof -
  let ?s1 = "observe (LogInfo ''PRE-CI AM failed. Notify the submitter'') s"
  obtain s2 where e: "send_email ci w series out ?s1 = (Inr (), s2)"
    using send_email_returns [OF assms, of ci w out ?s1]
    by (cases "send_email ci w series out ?s1") simp
  have "filter is_get_prs (snd s2) = filter is_get_prs (snd s)"
    using send_email_returns [OF assms, of ci w out ?s1] by (simp add: e)
  then show ?thesis
    by (auto simp: notify_submitter_def Let_def e)
qed

lemma create_pull_request_returns:
  assumes "patches series \<noteq> []"
  shows "(\<exists>b. fst (create_pull_request ci w series s) = Inr b) \<and>
         filter is_get_prs (snd (snd (create_pull_request ci w series s))) =
           filter is_get_prs (snd s)"
  using assms by (cases "patches series") (auto simp: create_pull_request_def Let_def)

lemma prepare_branch_returns:
  assumes "patches series \<noteq> []"
  shows "\<exists>r. fst (prepare_branch ci w series s) = Inr r"
  using assms by (cases "patches series") (simp_all add: prepare_branch_def Let_def)

lemma series_check_patches_returns:
  assumes "patches series \<noteq> []"
  shows "(\<exists>b. fst (series_check_patches ci w series s) = Inr b) \<and>
         filter is_get_prs (snd (snd (series_check_patches ci w series s))) =
           filter is_get_prs (snd s)"
proof -
  obtain r s1 where p: "prepare_branch ci w series s = (Inr r, s1)"
    using prepare_branch_returns [OF assms, of ci w s]
    by (cases "prepare_branch ci w series s") auto
  have s1: "filter is_get_prs (snd s1) = filter is_get_prs (snd s)"
    using prepare_branch_quiet [of ci w series s] by (simp add: p)
  show ?thesis
  proof (cases r)
    case None
    then show ?thesis
      by (auto simp: series_check_patches_def p s1)
  next
    case (Some ac)
    let ?r = "apply_patches ci w (series_dir ci series) ac (patches series) s1"
    have s2: "filter is_get_prs (snd (snd ?r)) = filter is_get_prs (snd s)"
      using apply_patches_quiet [of ci w "series_dir ci series" ac "patches series" s1]
      by (simp add: s1)
    show ?thesis
      using notify_submitter_returns [OF assms, of ci w ac "snd (fst ?r)" "snd ?r"]
        create_pull_request_returns [OF assms, of ci w "snd ?r"]
      by (simp add: series_check_patches_def p Some Let_def s2)
  qed
qed

lemma process_series_returns:
  assumes "patches series \<noteq> []"
  shows "(\<exists>x. fst (process_series ci w d series s) = Inr x \<and> series_id x = series_id series) \<and>
         filter is_get_prs (snd (snd (process_series ci w d series s))) =
           filter is_get_prs (snd s)"
proof -
  define s1 where
    "s1 = observe (LogInfo (''\<newline>### Process Series: '' @ py_str_int (series_id series) @ '' ###'')) s"
  define x where
    "x = (if series_name series = None
          then series\<lparr>series_name := Some (patch_name (hd (patches series)))\<rparr> else series)"
  have nm: "(if series_name series = None
               then (case patches series of
                       [] \<Rightarrow> Inl IndexError
                     | patch_1 # _ \<Rightarrow> Inr (series\<lparr>series_name := Some (patch_name patch_1)\<rparr>))
               else Inr series) = Inr x"
    using assms by (cases "patches series") (simp_all add: x_def)
  have x: "series_id x = series_id series" "patches x \<noteq> []"
    using assms by (simp_all add: x_def)
  have t1: "filter is_get_prs (snd s1) = filter is_get_prs (snd s)"
    by (simp add: s1_def)
  obtain n where n: "series_name x = Some n"
    by (cases "series_name series") (simp_all add: x_def)
  obtain b s2 where f: "filter_repo_space w d x (src_dir ci) s1 = (Inr b, s2)"
    using filter_repo_space_returns [OF n, of w d "src_dir ci" s1]
    by (cases "filter_repo_space w d x (src_dir ci) s1") auto
  have s2: "filter is_get_prs (snd s2) = filter is_get_prs (snd s)"
    using filter_repo_space_returns [OF n, of w d "src_dir ci" s1] by (simp add: f t1)
  define s3 where "s3 = call w (PrExistTitle (''PW_SID:'' @ py_str_int (series_id x))) s2"
  have t3: "filter is_get_prs (snd s3) = filter is_get_prs (snd s)"
    by (simp add: s3_def s2)
  obtain c s4 where c: "series_check_patches ci w x s3 = (Inr c, s4)"
    using series_check_patches_returns [OF x(2), of ci w s3]
    by (cases "series_check_patches ci w x s3") auto
  have s4: "filter is_get_prs (snd s4) = filter is_get_prs (snd s)"
    using series_check_patches_returns [OF x(2), of ci w s3] by (simp add: c t3)
  have "process_series ci w d series s =
          (if \<not> b then (Inr x, observe (LogInfo ''Series is NOT for this repo'') s2)
           else if pr_exist_title w (fst s2) (''PW_SID:'' @ py_str_int (series_id x))
           then (Inr x, observe (LogInfo ''PR exists already'') s3)
           else (Inr x, s4))"
    unfolding process_series_def Let_def nm s1_def [symmetric]
    by (simp only: f c s3_def [symmetric] sum.case prod.case)
  then show ?thesis
    by (simp add: s2 t3 s4 x(1))
qed

lemma run_series_loop_returns:
  assumes "\<forall>x\<in>set ss. patches x \<noteq> []"
  shows "(\<exists>ss1. fst (run_series_loop ci w d ss s) = Inr ss1 \<and>
                map series_id ss1 = map series_id ss) \<and>
         filter is_get_prs (snd (snd (run_series_loop ci w d ss s))) = filter is_get_prs (snd s)"
  using assms
proof (induction ss arbitrary: s)
  case Nil
  show ?case by simp
next
  case (Cons x ss)
  then have px: "patches x \<noteq> []" and rest: "\<forall>y\<in>set ss. patches y \<noteq> []"
    by simp_all
  obtain x1 s1 where p: "process_series ci w d x s = (Inr x1, s1)"
    and x1: "series_id x1 = series_id x"
    using process_series_returns [OF px, of ci w d s]
    by (cases "process_series ci w d x s") auto
  have s1: "filter is_get_prs (snd s1) = filter is_get_prs (snd s)"
    using process_series_returns [OF px, of ci w d s] by (simp add: p)
  obtain ss1 s2 where l: "run_series_loop ci w d ss s1 = (Inr ss1, s2)"
    and ss1: "map series_id ss1 = map series_id ss"
    using Cons.IH [OF rest, of s1]
    by (cases "run_series_loop ci w d ss s1") auto
  have s2: "filter is_get_prs (snd s2) = filter is_get_prs (snd s)"
    using Cons.IH [OF rest, of s1] by (simp add: l s1)
  show ?case
    by (simp add: p l x1 ss1 s2)
qed

lemma cleanup_loop_no_fetch:
  "filter is_get_prs (snd (snd (cleanup_loop w ns prs s))) = filter is_get_prs (snd s)"
  by (induction prs arbitrary: s) (simp_all split: option.splits sum.splits)

lemma cleanup_pullrequest_one_fetch:
  "filter is_get_prs (snd (snd (cleanup_pullrequest w ns s))) =
     filter is_get_prs (snd s) @ [GetPrs True]"
  by (simp add: cleanup_pullrequest_def Let_def cleanup_loop_no_fetch)

lemma send_email_no_fetch:
  "filter is_get_prs (snd (snd (send_email ci w series out s))) = filter is_get_prs (snd s)"
  by (cases "patches series") (simp_all add: send_email_def Let_def)

lemma notify_submitter_no_fetch:
  "filter is_get_prs (snd (snd (notify_submitter ci w series ac out s))) =
     filter is_get_prs (snd s)"
proof -
  let ?s1 = "observe (LogInfo ''PRE-CI AM failed. Notify the submitter'') s"
  obtain r s2 where e: "send_email ci w series out ?s1 = (r, s2)"
    by (cases "send_email ci w series out ?s1")
  have "filter is_get_prs (snd s2) = filter is_get_prs (snd s)"
    using send_email_no_fetch [of ci w series out ?s1] by (simp add: e)
  then show ?thesis
    by (cases r) (simp_all add: notify_submitter_def Let_def e)
qed

lemma create_pull_request_no_fetch:
  "filter is_get_prs (snd (snd (create_pull_request ci w series s))) = filter is_get_prs (snd s)"
  by (cases "patches series") (simp_all add: create_pull_request_def Let_def)

lemma series_check_patches_no_fetch:
  "filter is_get_prs (snd (snd (series_check_patches ci w series s))) = filter is_get_prs (snd s)"
proof -
  obtain r s1 where p: "prepare_branch ci w series s = (r, s1)"
    by (cases "prepare_branch ci w series s")
  have s1: "filter is_get_prs (snd s1) = filter is_get_prs (snd s)"
    using prepare_branch_quiet [of ci w series s] by (simp add: p)
  show ?thesis
  proof (cases r)
    case (Inl e)
    then show ?thesis
      by (simp add: series_check_patches_def p s1)
  next
    case (Inr opt)
    show ?thesis
    proof (cases opt)
      case None
      then show ?thesis
        by (simp add: series_check_patches_def p Inr s1)
    next
      case (Some ac)
      let ?r = "apply_patches ci w (series_dir ci series) ac (patches series) s1"
      have s2: "filter is_get_prs (snd (snd ?r)) = filter is_get_prs (snd s)"
        using apply_patches_quiet [of ci w "series_dir ci series" ac "patches series" s1]
        by (simp add: s1)
      show ?thesis
        by (simp add: series_check_patches_def p Inr Some Let_def
            notify_submitter_no_fetch create_pull_request_no_fetch s2)
    qed
  qed
qed

lemma filter_repo_space_no_fetch:
  "filter is_get_prs (snd (snd (filter_repo_space w d series src s))) = filter is_get_prs (snd s)"
proof -
  let ?fl = "fileListExcludingNew w (fst s) series"
  obtain s1 where g: "series_get_file_list w series True s = (Inr ?fl, s1)"
    using series_get_file_list_True [of w series s]
    by (cases "series_get_file_list w series True s") simp
  have s1: "filter is_get_prs (snd s1) = filter is_get_prs (snd s)"
    using series_get_file_list_True [of w series s] by (simp add: g)
  obtain b s2 where f: "files_exist w src ?fl s1 = (b, s2)"
    by (cases "files_exist w src ?fl s1")
  have s2: "filter is_get_prs (snd s2) = filter is_get_prs (snd s)"
    using files_exist_eq [of w src ?fl s1] by (simp add: f s1)
  show ?thesis
    by (simp add: filter_repo_space_def g f s1 s2 split: sum.splits)
qed

lemma process_series_no_fetch:
  "filter is_get_prs (snd (snd (process_series ci w d series s))) = filter is_get_prs (snd s)"
proof -
  define s1 where
    "s1 = observe (LogInfo (''\<newline>### Process Series: '' @ py_str_int (series_id series) @ '' ###'')) s"
  have t1: "filter is_get_prs (snd s1) = filter is_get_prs (snd s)"
    by (simp add: s1_def)
  define nm where
    "nm = (if series_name series = None
           then (case patches series of
                   [] \<Rightarrow> Inl IndexError
                 | patch_1 # _ \<Rightarrow> Inr (series\<lparr>series_name := Some (patch_name patch_1)\<rparr>))
           else Inr series)"
  have run: "process_series ci w d series s =
      (case nm of
         Inl e \<Rightarrow> (Inl e, s1)
       | Inr series1 \<Rightarrow>
           (case filter_repo_space w d series1 (src_dir ci) s1 of
              (Inl e, s2) \<Rightarrow> (Inl e, s2)
            | (Inr belongs, s2) \<Rightarrow>
                if \<not> belongs
                then (Inr series1, observe (LogInfo ''Series is NOT for this repo'') s2)
                else
                  (let tag = ''PW_SID:'' @ py_str_int (series_id series1);
                       found = pr_exist_title w (fst s2) tag;
                       s3 = call w (PrExistTitle tag) s2
                   in if found
                      then (Inr series1, observe (LogInfo ''PR exists already'') s3)
                      else (case series_check_patches ci w series1 s3 of
                              (Inl e, s4) \<Rightarrow> (Inl e, s4)
                            | (Inr _, s4) \<Rightarrow> (Inr series1, s4)))))"
    unfolding process_series_def Let_def nm_def s1_def by (rule refl)
  show ?thesis
  proof (cases nm)
    case (Inl e)
    then show ?thesis
      by (simp add: run t1)
  next
    case (Inr x)
    obtain r s2 where f: "filter_repo_space w d x (src_dir ci) s1 = (r, s2)"
      by (cases "filter_repo_space w d x (src_dir ci) s1")
    have s2: "filter is_get_prs (snd s2) = filter is_get_prs (snd s)"
      using filter_repo_space_no_fetch [of w d x "src_dir ci" s1] by (simp add: f t1)
    define s3 where "s3 = call w (PrExistTitle (''PW_SID:'' @ py_str_int (series_id x))) s2"
    have t3: "filter is_get_prs (snd s3) = filter is_get_prs (snd s)"
      by (simp add: s3_def s2)
    obtain c s4 where c: "series_check_patches ci w x s3 = (c, s4)"
      by (cases "series_check_patches ci w x s3")
    have s4: "filter is_get_prs (snd s4) = filter is_get_prs (snd s)"
      using series_check_patches_no_fetch [of ci w x s3] by (simp add: c t3)
    have "process_series ci w d series s =
      (case r of
         Inl e \<Rightarrow> (Inl e, s2)
       | Inr belongs \<Rightarrow>
           if \<not> belongs
           then (Inr x, observe (LogInfo ''Series is NOT for this repo'') s2)
           else if pr_exist_title w (fst s2) (''PW_SID:'' @ py_str_int (series_id x))
           then (Inr x, observe (LogInfo ''PR exists already'') s3)
           else (case c of Inl e \<Rightarrow> (Inl e, s4) | Inr _ \<Rightarrow> (Inr x, s4)))"
      unfolding run Inr Let_def
      by (simp only: f c s3_def [symmetric] sum.case prod.case)
    then show ?thesis
      by (cases r; cases c) (simp_all add: s2 t3 s4)
  qed
qed

lemma run_series_loop_no_fetch:
  "filter is_get_prs (snd (snd (run_series_loop ci w d ss s))) = filter is_get_prs (snd s)"
proof (induction ss arbitrary: s)
  case Nil
  show ?case by simp
next
  case (Cons x ss)
  obtain r s1 where p: "process_series ci w d x s = (r, s1)"
    by (cases "process_series ci w d x s")
  have s1: "filter is_get_prs (snd s1) = filter is_get_prs (snd s)"
    using process_series_no_fetch [of ci w d x s] by (simp add: p)
  obtain r2 s2 where l: "run_series_loop ci w d ss s1 = (r2, s2)"
    by (cases "run_series_loop ci w d ss s1")
  have s2: "filter is_get_prs (snd s2) = filter is_get_prs (snd s)"
    using Cons.IH [of s1] by (simp add: l s1)
  show ?case
    by (cases r; cases r2) (simp_all add: p l s1 s2)
qed

lemma run_series_no_fetch:
  "filter is_get_prs (snd (snd (run_series ci w ss s))) = filter is_get_prs (snd s)"
  by (cases "space_details ci (space ci)") (simp_all add: run_series_def run_series_loop_no_fetch)

text \<open>
  C3 (as amended). Take a run whose arguments pass \<open>check_args\<close>. If the pending
  list is empty, \<open>main\<close> logs that and returns: the open pull requests are not
  fetched and none is closed. If the list is not empty and \<open>run_series\<close> raises,
  \<open>main\<close> ends with that error, again without fetching the pull requests. If the
  list is not empty and \<open>run_series\<close> returns, it has fetched no pull requests, and
  \<open>cleanup_pullrequest\<close> then runs, once. Collaborator calls and the pattern
  matcher are total here; with that, \<open>run_series\<close> returns, having gone through
  the whole list, whenever the space is configured and every pending series has at
  least one patch.
\<close>

theorem cleanup_pass_once:
  "(get_series_by_state w (fst s) 1 = [] \<longrightarrow>
      main True ci w s =
        (Inr (), observe (LogInfo ''No new patches/series found. Done. Exit'')
                   (observe (GetSeriesByState 1) s)) \<and>
      filter is_get_prs (snd (snd (main True ci w s))) = filter is_get_prs (snd s)) \<and>
   (\<forall>e s2. get_series_by_state w (fst s) 1 \<noteq> [] \<and>
      run_series ci w (get_series_by_state w (fst s) 1) (observe (GetSeriesByState 1) s)
        = (Inl e, s2) \<longrightarrow>
      main True ci w s = (Inl e, s2) \<and>
      filter is_get_prs (snd (snd (main True ci w s))) = filter is_get_prs (snd s)) \<and>
   (\<forall>ss s2. get_series_by_state w (fst s) 1 \<noteq> [] \<and>
      run_series ci w (get_series_by_state w (fst s) 1) (observe (GetSeriesByState 1) s)
        = (Inr ss, s2) \<longrightarrow>
      main True ci w s = cleanup_pullrequest w ss s2 \<and>
      filter is_get_prs (snd s2) = filter is_get_prs (snd s) \<and>
      filter is_get_prs (snd (snd (main True ci w s))) =
        filter is_get_prs (snd s) @ [GetPrs True]) \<and>
   (space_details ci (space ci) = Some d \<and>
    (\<forall>x\<in>set (get_series_by_state w (fst s) 1). patches x \<noteq> []) \<longrightarrow>
      (\<exists>ss s2.
         run_series ci w (get_series_by_state w (fst s) 1) (observe (GetSeriesByState 1) s)
           = (Inr ss, s2) \<and>
         map series_id ss = map series_id (get_series_by_state w (fst s) 1)))"
proof -
  let ?ns = "get_series_by_state w (fst s) 1"
  let ?s1 = "observe (GetSeriesByState 1) s"
  have quiet: "filter is_get_prs (snd (snd (run_series ci w ?ns ?s1))) = filter is_get_prs (snd s)"
    by (simp add: run_series_no_fetch)
  have empty: "main True ci w s =
              (Inr (), observe (LogInfo ''No new patches/series found. Done. Exit'') ?s1) \<and>
            filter is_get_prs (snd (snd (main True ci w s))) = filter is_get_prs (snd s)"
    if "?ns = []"
    using that by (simp add: main_def Let_def)
  have raised: "main True ci w s = (Inl e, s2) \<and>
      filter is_get_prs (snd (snd (main True ci w s))) = filter is_get_prs (snd s)"
    if "?ns \<noteq> []" "run_series ci w ?ns ?s1 = (Inl e, s2)" for e s2
  proof -
    have m: "main True ci w s = (Inl e, s2)"
      using that by (simp add: main_def Let_def)
    from quiet that(2) show ?thesis
      by (simp add: m)
  qed
  have returned: "main True ci w s = cleanup_pullrequest w ss s2 \<and>
      filter is_get_prs (snd s2) = filter is_get_prs (snd s) \<and>
      filter is_get_prs (snd (snd (main True ci w s))) = filter is_get_prs (snd s) @ [GetPrs True]"
    if "?ns \<noteq> []" "run_series ci w ?ns ?s1 = (Inr ss, s2)" for ss s2
  proof -
    have m: "main True ci w s = cleanup_pullrequest w ss s2"
      using that by (simp add: main_def Let_def)
    from quiet that(2) have s2: "filter is_get_prs (snd s2) = filter is_get_prs (snd s)"
      by simp
    show ?thesis
      by (simp add: m s2 cleanup_pullrequest_one_fetch)
  qed
  have enough: "\<exists>ss s2. run_series ci w ?ns ?s1 = (Inr ss, s2) \<and>
         map series_id ss = map series_id ?ns"
    if cfg: "space_details ci (space ci) = Some d" and pat: "\<forall>x\<in>set ?ns. patches x \<noteq> []"
  proof -
    obtain ss s2 where l: "run_series_loop ci w d ?ns ?s1 = (Inr ss, s2)"
      and ss: "map series_id ss = map series_id ?ns"
      using run_series_loop_returns [OF pat, of ci w d ?s1]
      by (cases "run_series_loop ci w d ?ns ?s1") auto
    then show ?thesis
      by (simp add: run_series_def cfg)
  qed
  from empty raised returned enough show ?thesis
    by blast
qed

theorem cleanup_pass_once_witness:
  "space_details demo_ci (space demo_ci) = Some demo_details \<and>
   get_series_by_state demo_env () 1 = [demo_series] \<and>
   patches demo_series \<noteq> [] \<and>
   filter is_get_prs (snd (snd (main True demo_ci demo_env ((), [])))) = [GetPrs True] \<and>
   get_series_by_state idle_env () 1 = [] \<and>
   filter is_get_prs (snd (snd (main True demo_ci idle_env ((), [])))) = [] \<and>
   fst (run_series demo_ci hollow_env (get_series_by_state hollow_env () 1)
          (observe (GetSeriesByState 1) ((), []))) = Inl IndexError \<and>
   fst (main True demo_ci hollow_env ((), [])) = Inl IndexError \<and>
   filter is_get_prs (snd (snd (main True demo_ci hollow_env ((), [])))) = []"
proof -
  let ?s = "((), []) :: unit state"
  let ?s1 = "observe (GetSeriesByState 1) ?s"
  have a: "space_details demo_ci (space demo_ci) = Some demo_details"
    by code_simp
  have b: "get_series_by_state demo_env () 1 = [demo_series]"
    "get_series_by_state idle_env () 1 = []"
    by code_simp+
  have c: "patches demo_series \<noteq> []"
    by code_simp
  have h: "\<forall>x\<in>set (get_series_by_state demo_env (fst ?s) 1). patches x \<noteq> []"
    using b c by simp
  have ne: "get_series_by_state demo_env (fst ?s) 1 \<noteq> []"
    "get_series_by_state hollow_env (fst ?s) 1 \<noteq> []"
    by code_simp+
  have r: "fst (run_series demo_ci hollow_env (get_series_by_state hollow_env () 1) ?s1) =
      Inl IndexError"
    by code_simp
  note run = cleanup_pass_once [of demo_env ?s demo_ci demo_details]
  note idle = cleanup_pass_once [of idle_env ?s demo_ci demo_details]
  note hollow = cleanup_pass_once [of hollow_env ?s demo_ci demo_details]
  have r': "fst (run_series demo_ci hollow_env (get_series_by_state hollow_env (fst ?s) 1) ?s1) =
      Inl IndexError"
    using r by simp
  have e: "get_series_by_state idle_env (fst ?s) 1 = []"
    using b(2) by simp
  from run a h obtain ss s2 where
    ok: "run_series demo_ci demo_env (get_series_by_state demo_env (fst ?s) 1) ?s1 = (Inr ss, s2)"
    by blast
  from run ne(1) ok
  have "filter is_get_prs (snd (snd (main True demo_ci demo_env ?s))) =
          filter is_get_prs (snd ?s) @ [GetPrs True]"
    by blast
  then have full: "filter is_get_prs (snd (snd (main True demo_ci demo_env ?s))) = [GetPrs True]"
    by simp
  from idle e
  have "filter is_get_prs (snd (snd (main True demo_ci idle_env ?s))) = filter is_get_prs (snd ?s)"
    by blast
  then have none: "filter is_get_prs (snd (snd (main True demo_ci idle_env ?s))) = []"
    by simp
  from hollow ne(2) pair_fst [OF r']
  have m: "main True demo_ci hollow_env ?s =
          (Inl IndexError,
           snd (run_series demo_ci hollow_env (get_series_by_state hollow_env (fst ?s) 1) ?s1))"
    and q: "filter is_get_prs (snd (snd (main True demo_ci hollow_env ?s))) =
          filter is_get_prs (snd ?s)"
    by blast+
  from m have err: "fst (main True demo_ci hollow_env ?s) = Inl IndexError"
    by simp
  from q have quiet: "filter is_get_prs (snd (snd (main True demo_ci hollow_env ?s))) = []"
    by simp
  show ?thesis
    by (intro conjI a b c full none r err quiet)
qed

text \<open>
  C3 as stated fails on an empty pending list: \<open>main\<close> returns before the
  close-stale pass, which would have closed two pull requests.
\<close>

theorem empty_queue_skips_cleanup_counterexample:
  "get_series_by_state idle_env () 1 = [] \<and>
   main True demo_ci idle_env ((), []) =
     (Inr (), (), [GetSeriesByState 1, LogInfo ''No new patches/series found. Done. Exit'']) \<and>
   filter is_get_prs (snd (snd (main True demo_ci idle_env ((), [])))) = [] \<and>
   filter is_close_pr (snd (snd (cleanup_pullrequest idle_env [] ((), [])))) =
     [ClosePr 1, ClosePr 2]"
  by code_simp

end
